theory Spec2Isabelle
  imports Main "HOL-Library.AList"
begin

section \<open>Configuration (config/rabbitmq.config.js)\<close>

definition heartbeatIntervalInSeconds :: nat where
  "heartbeatIntervalInSeconds = 30"

definition reconnectTimeInSeconds :: nat where
  "reconnectTimeInSeconds = 10"

definition queueOptions_durable :: bool where
  "queueOptions_durable = True"

definition consumerOptions_noAck :: bool where
  "consumerOptions_noAck = False"

definition publishOptions_persistent :: bool where
  "publishOptions_persistent = True"

definition maxRetries :: nat where
  "maxRetries = 5"

definition delayMs :: nat where
  "delayMs = 60000"

section \<open>JavaScript primitives used by the messaging layer\<close>

text \<open>
  \<open>Number.prototype.toString\<close> on an integer: the decimal digits, with a leading
  minus sign for a negative number.
\<close>

definition digit_char :: "nat \<Rightarrow> char" where
  "digit_char d = ''0123456789'' ! d"

fun nat_digits :: "nat \<Rightarrow> string" where
  "nat_digits n =
     (if n < 10 then [digit_char n] else nat_digits (n div 10) @ [digit_char (n mod 10)])"

declare nat_digits.simps [simp del]

definition toString :: "int \<Rightarrow> string" where
  "toString i = (if i < 0 then CHR ''-'' # nat_digits (nat (- i)) else nat_digits (nat i))"

text \<open>The inverse reading of a decimal numeral, used to show that \<open>toString\<close> loses nothing.\<close>

definition digit_val :: "char \<Rightarrow> nat" where
  "digit_val c = of_char c - 48"

definition digits_val :: "string \<Rightarrow> nat" where
  "digits_val s = foldl (\<lambda>a c. 10 * a + digit_val c) 0 s"

definition parseInt :: "string \<Rightarrow> int" where
  "parseInt s =
     (case s of
        [] \<Rightarrow> 0
      | c # cs \<Rightarrow> if c = CHR ''-'' then - int (digits_val cs) else int (digits_val s))"

text \<open>
  \<open>a || b\<close> on a string-or-null left operand: \<open>null\<close> and the empty string are falsy,
  every other string is truthy.
\<close>

definition or_else :: "string option \<Rightarrow> string \<Rightarrow> string" where
  "or_else a b = (case a of None \<Rightarrow> b | Some s \<Rightarrow> if s = [] then b else s)"

definition truthy :: "string option \<Rightarrow> bool" where
  "truthy a = (case a of None \<Rightarrow> False | Some s \<Rightarrow> s \<noteq> [])"

section \<open>The broker as seen by the process\<close>

text \<open>
  The broker and the amqplib client are outside the repository. Each request the code
  awaits is answered by the environment: \<open>None\<close> when the promise resolves,
  \<open>Some msg\<close> when it rejects with an error carrying the message \<open>msg\<close>. The answers
  are indexed by the handle they concern, so that different calls may be answered
  differently.
\<close>

record broker =
  amqp_connect :: "nat \<Rightarrow> string option"
  createChannel :: "nat \<Rightarrow> string option"
  prefetch :: "nat \<Rightarrow> string option"
  channel_close :: "nat \<Rightarrow> string option"
  connection_close :: "nat \<Rightarrow> string option"
  assertQueue :: "nat \<Rightarrow> string \<Rightarrow> string option"
  sendToQueue :: "nat \<Rightarrow> string + bool"

text \<open>
  A channel handle remembers the connection it was opened on; \<open>ch_prefetch\<close> is the
  prefetch count set on it.
\<close>

record channel =
  ch_id :: nat
  ch_conn :: nat
  ch_prefetch :: nat

section \<open>Connection manager (class RabbitMQConnection)\<close>

text \<open>
  \<open>connection\<close>, \<open>channels\<close> and \<open>isConnecting\<close> are the three fields of the class; the
  channel cache is a JavaScript \<open>Map\<close>, kept as an association list in insertion order.
  \<open>timers\<close> are the pending \<open>setTimeout\<close> reconnects (delay in milliseconds),
  \<open>attempts\<close> counts the calls of \<open>amqp.connect\<close> and names the connection each one
  yields, \<open>opened\<close> does the same for \<open>createChannel\<close>, and \<open>errlog\<close> collects what
  \<open>logger.error\<close> receives.
\<close>

record manager =
  connection :: "nat option"
  channels :: "(string \<times> channel) list"
  isConnecting :: bool
  timers :: "nat list"
  attempts :: nat
  opened :: nat
  errlog :: "string list"

definition new_manager :: manager where
  "new_manager = \<lparr>connection = None, channels = [], isConnecting = False, timers = [],
     attempts = 0, opened = 0, errlog = []\<rparr>"

text \<open>
  \<open>connect()\<close> suspends at its \<open>await\<close>s, and other callbacks run in between. A call is
  therefore a small machine: \<open>Entry\<close> is the call itself, \<open>Polling\<close> the loop that
  sleeps 100 ms while \<open>isConnecting\<close> holds, \<open>Awaiting n\<close> the pending
  \<open>amqp.connect\<close> number \<open>n\<close>; \<open>Returned\<close> and \<open>Threw\<close> are the two ways the promise
  settles. One step runs the code up to its next \<open>await\<close>.
\<close>

datatype connect_pc = Entry | Polling | Awaiting nat | Returned "nat option" | Threw string

definition on_connection_error :: "string \<Rightarrow> 'a manager_scheme \<Rightarrow> 'a manager_scheme" where
  "on_connection_error err m = m\<lparr>errlog := errlog m @ [''RabbitMQ connection error:'']\<rparr>"

definition on_connection_close :: "'a manager_scheme \<Rightarrow> 'a manager_scheme" where
  "on_connection_close m =
     m\<lparr>connection := None, channels := [],
       timers := timers m @ [reconnectTimeInSeconds * 1000]\<rparr>"

fun connect_step :: "broker \<Rightarrow> connect_pc \<Rightarrow> 'a manager_scheme \<Rightarrow> connect_pc \<times> 'a manager_scheme" where
  "connect_step b Entry m =
     (case connection m of
        Some c \<Rightarrow> (Returned (Some c), m)
      | None \<Rightarrow>
          if isConnecting m then (Polling, m)
          else (Awaiting (attempts m), m\<lparr>isConnecting := True, attempts := Suc (attempts m)\<rparr>))"
| "connect_step b Polling m =
     (if isConnecting m then (Polling, m) else (Returned (connection m), m))"
| "connect_step b (Awaiting n) m =
     (case amqp_connect b n of
        None \<Rightarrow> (Returned (Some n), m\<lparr>connection := Some n, isConnecting := False\<rparr>)
      | Some e \<Rightarrow>
          (Threw e, m\<lparr>isConnecting := False,
                       errlog := errlog m @ [''Failed to connect to RabbitMQ:'']\<rparr>))"
| "connect_step b (Returned r) m = (Returned r, m)"
| "connect_step b (Threw e) m = (Threw e, m)"

text \<open>
  A call of \<open>connect()\<close> that nothing interrupts: the entry step and, when it started an
  attempt, the broker's answer. When another attempt is in flight the call is left
  polling, since only that other attempt can end the loop.
\<close>

definition connect :: "broker \<Rightarrow> 'a manager_scheme \<Rightarrow> connect_pc \<times> 'a manager_scheme" where
  "connect b m =
     (case connect_step b Entry m of
        (Awaiting n, m') \<Rightarrow> connect_step b (Awaiting n) m'
      | r \<Rightarrow> r)"

text \<open>
  The result of an awaited call: it returns, it throws an error with a message, or it
  stays suspended because what it waits for can only come from another task.
\<close>

datatype 'a outcome = Return 'a | Throw string | Pending

definition open_channel :: "broker \<Rightarrow> string \<Rightarrow> 'a manager_scheme \<Rightarrow> channel outcome \<times> 'a manager_scheme" where
  "open_channel b name m =
     (case connection m of
        None \<Rightarrow>
          (Throw ''Cannot read properties of null'',
           m\<lparr>errlog := errlog m @ [''Failed to create channel (''  @ name @ ''):'']\<rparr>)
      | Some c \<Rightarrow>
          (case createChannel b (opened m) of
             Some e \<Rightarrow>
               (Throw e,
                m\<lparr>opened := Suc (opened m),
                  errlog := errlog m @ [''Failed to create channel ('' @ name @ ''):'']\<rparr>)
           | None \<Rightarrow>
               (case prefetch b (opened m) of
                  Some e \<Rightarrow>
                    (Throw e,
                     m\<lparr>opened := Suc (opened m),
                       errlog := errlog m @ [''Failed to create channel ('' @ name @ ''):'']\<rparr>)
                | None \<Rightarrow>
                    (let ch = \<lparr>ch_id = opened m, ch_conn = c, ch_prefetch = 1\<rparr>
                     in (Return ch,
                         m\<lparr>opened := Suc (opened m),
                           channels := AList.update name ch (channels m)\<rparr>)))))"

definition getChannel :: "broker \<Rightarrow> string \<Rightarrow> 'a manager_scheme \<Rightarrow> channel outcome \<times> 'a manager_scheme" where
  "getChannel b name m =
     (case map_of (channels m) name of
        Some ch \<Rightarrow> (Return ch, m)
      | None \<Rightarrow>
          (if connection m = None then
             (case connect b m of
                (Threw e, m') \<Rightarrow> (Throw e, m')
              | (Polling, m') \<Rightarrow> (Pending, m')
              | (_, m') \<Rightarrow> open_channel b name m')
           else open_channel b name m))"

definition on_channel_error :: "string \<Rightarrow> 'a manager_scheme \<Rightarrow> 'a manager_scheme" where
  "on_channel_error name m =
     m\<lparr>channels := AList.delete name (channels m),
       errlog := errlog m @ [''RabbitMQ channel error ('' @ name @ ''):'']\<rparr>"

definition on_channel_close :: "string \<Rightarrow> 'a manager_scheme \<Rightarrow> 'a manager_scheme" where
  "on_channel_close name m = m\<lparr>channels := AList.delete name (channels m)\<rparr>"

definition closeChannel :: "broker \<Rightarrow> string \<Rightarrow> 'a manager_scheme \<Rightarrow> unit outcome \<times> 'a manager_scheme" where
  "closeChannel b name m =
     (case map_of (channels m) name of
        None \<Rightarrow> (Return (), m)
      | Some ch \<Rightarrow>
          (case channel_close b (ch_id ch) of
             None \<Rightarrow> (Return (), m\<lparr>channels := AList.delete name (channels m)\<rparr>)
           | Some e \<Rightarrow>
               (Return (),
                m\<lparr>errlog := errlog m @ [''Error closing channel ('' @ name @ ''):'']\<rparr>)))"

text \<open>
  \<open>close()\<close>: every cached channel is closed, a failure being logged, then the cache is
  cleared whatever happened, then the connection is closed.
\<close>

fun close_all :: "broker \<Rightarrow> (string \<times> channel) list \<Rightarrow> string list" where
  "close_all b [] = []"
| "close_all b ((name, ch) # rest) =
     (case channel_close b (ch_id ch) of
        None \<Rightarrow> close_all b rest
      | Some e \<Rightarrow> (''Error closing channel ('' @ name @ ''):'') # close_all b rest)"

definition close :: "broker \<Rightarrow> 'a manager_scheme \<Rightarrow> unit outcome \<times> 'a manager_scheme" where
  "close b m =
     (let m1 = m\<lparr>channels := [], errlog := errlog m @ close_all b (channels m)\<rparr>
      in case connection m1 of
           None \<Rightarrow> (Return (), m1)
         | Some c \<Rightarrow>
             (case connection_close b c of
                None \<Rightarrow> (Return (), m1\<lparr>connection := None\<rparr>)
              | Some e \<Rightarrow>
                  (Throw e,
                   m1\<lparr>errlog := errlog m1 @ [''Error closing RabbitMQ connection:'']\<rparr>)))"

definition isConnected :: "'a manager_scheme \<Rightarrow> bool" where
  "isConnected m = (connection m \<noteq> None)"

section \<open>Publisher (utils/rabbitmq.utils.js)\<close>

text \<open>
  What \<open>channel.sendToQueue\<close> is given: the options object with its \<open>headers\<close>, the
  queue, and the serialised payload. \<open>outbox\<close> lists the messages handed to the
  channel, \<open>declared\<close> the queues asserted (name, durable, x-queue-type), and \<open>uuids\<close>
  counts the identifiers \<open>uuidv4\<close> has handed out.
\<close>

record publish_options =
  persistent :: bool
  priority :: int
  messageId :: string
  timestamp :: int
  contentType :: string
  headers :: "(string \<times> string) list"

record sent_message =
  via_channel :: nat
  to_queue :: string
  content :: string
  options :: publish_options

record world = manager +
  declared :: "(string \<times> bool \<times> string) list"
  outbox :: "sent_message list"
  uuids :: nat

definition new_world :: world where
  "new_world = manager.extend new_manager \<lparr>declared = [], outbox = [], uuids = 0\<rparr>"

text \<open>
  The runtime services of a publish: \<open>JSON.stringify\<close> followed by \<open>Buffer.from\<close>
  (\<open>None\<close> when it throws), the \<open>uuid\<close> library (its \<open>k\<close>-th identifier) and the
  clock.
\<close>

record 'm runtime =
  JSON_stringify :: "'m \<Rightarrow> string option"
  uuidv4 :: "nat \<Rightarrow> string"
  Date_now :: int

text \<open>
  A publish call returns (\<open>Published\<close>), throws its wrapped error, or is suspended:
  on the connection attempt of another task, or on the channel's \<open>drain\<close> event, with
  the messages of the batch still to be sent.
\<close>

datatype 'm publish_outcome =
  Published | Failed string | AwaitingConnect | AwaitingDrain "'m list"

definition ensureQueue :: "broker \<Rightarrow> channel \<Rightarrow> string \<Rightarrow> 'a world_scheme \<Rightarrow> string option \<times> 'a world_scheme" where
  "ensureQueue b ch queue w =
     (case assertQueue b (ch_id ch) queue of
        Some e \<Rightarrow> (Some e, w)
      | None \<Rightarrow> (None, w\<lparr>declared := declared w @ [(queue, queueOptions_durable, ''classic'')]\<rparr>))"

text \<open>
  The call of \<open>channel.sendToQueue\<close> with the options literal that both publish
  functions write out; its result is the boolean the channel returns, or the error it
  throws.
\<close>

definition send_message ::
  "broker \<Rightarrow> channel \<Rightarrow> string \<Rightarrow> string \<Rightarrow> int \<Rightarrow> string \<Rightarrow> int \<Rightarrow> 'a world_scheme
    \<Rightarrow> (string + bool) \<times> 'a world_scheme" where
  "send_message b ch queue buf prio msgId ts w =
     (case sendToQueue b (length (outbox w)) of
        Inl e \<Rightarrow> (Inl e, w)
      | Inr sent \<Rightarrow>
          (Inr sent,
           w\<lparr>outbox := outbox w @
               [\<lparr>via_channel = ch_id ch, to_queue = queue, content = buf,
                 options =
                   \<lparr>persistent = publishOptions_persistent,
                    priority = min (max prio 0) 10,
                    messageId = msgId,
                    timestamp = ts,
                    contentType = ''application/json'',
                    headers = [(''priority'', toString prio), (''timestamp'', toString ts)]\<rparr>\<rparr>]\<rparr>))"

definition publish_failed :: "string \<Rightarrow> 'a world_scheme \<Rightarrow> 'm publish_outcome \<times> 'a world_scheme" where
  "publish_failed e w =
     (Failed (''Failed to publish message to queue: '' @ e),
      w\<lparr>errlog := errlog w @ [''Error publishing to RabbitMQ queue:'']\<rparr>)"

text \<open>
  The body of \<open>publishToQueue\<close> once the channel is there and the queue is declared:
  the identifier (\<open>uuidv4\<close> is called only when the argument is falsy), the clock, the
  serialisation, the send and the test of its result.
\<close>

definition publish_body ::
  "broker \<Rightarrow> 'm runtime \<Rightarrow> channel \<Rightarrow> string \<Rightarrow> 'm \<Rightarrow> int \<Rightarrow> string option \<Rightarrow> 'a world_scheme
    \<Rightarrow> 'm publish_outcome \<times> 'a world_scheme" where
  "publish_body b rt ch queue message prio msgIdArg w =
     (let msgId = or_else msgIdArg (uuidv4 rt (uuids w));
          w1 = (if truthy msgIdArg then w else w\<lparr>uuids := Suc (uuids w)\<rparr>);
          ts = Date_now rt
      in case JSON_stringify rt message of
           None \<Rightarrow> publish_failed ''Converting circular structure to JSON'' w1
         | Some buf \<Rightarrow>
             (case send_message b ch queue buf prio msgId ts w1 of
                (Inl e, w2) \<Rightarrow> publish_failed e w2
              | (Inr sent, w2) \<Rightarrow>
                  if sent then (Published, w2) else (AwaitingDrain [], w2)))"

definition publishToQueue ::
  "broker \<Rightarrow> 'm runtime \<Rightarrow> string \<Rightarrow> 'm \<Rightarrow> int \<Rightarrow> string option \<Rightarrow> 'a world_scheme
    \<Rightarrow> 'm publish_outcome \<times> 'a world_scheme" where
  "publishToQueue b rt queue message prio msgIdArg w =
     (case getChannel b ''publisher'' w of
        (Throw e, w1) \<Rightarrow> publish_failed e w1
      | (Pending, w1) \<Rightarrow> (AwaitingConnect, w1)
      | (Return ch, w1) \<Rightarrow>
          (case ensureQueue b ch queue w1 of
             (Some e, w2) \<Rightarrow> publish_failed e w2
           | (None, w2) \<Rightarrow> publish_body b rt ch queue message prio msgIdArg w2))"

text \<open>After the \<open>drain\<close> event a suspended single publish only logs and returns.\<close>

definition publishToQueue_drained :: "'a world_scheme \<Rightarrow> 'm publish_outcome \<times> 'a world_scheme" where
  "publishToQueue_drained w = (Published, w)"

definition batch_failed :: "string \<Rightarrow> 'a world_scheme \<Rightarrow> 'm publish_outcome \<times> 'a world_scheme" where
  "batch_failed e w =
     (Failed (''Failed to publish batch to queue: '' @ e),
      w\<lparr>errlog := errlog w @ [''Error publishing batch to RabbitMQ queue:'']\<rparr>)"

text \<open>
  The \<open>for\<close> loop of \<open>publishBatchToQueue\<close> over the messages still to be sent. It runs
  until the batch is done, an error is thrown, or a send reports a full buffer; in the
  last case the call is suspended with the rest of the batch, and the \<open>drain\<close> event
  re-enters the loop there.
\<close>

fun publishBatch_loop ::
  "broker \<Rightarrow> 'm runtime \<Rightarrow> channel \<Rightarrow> string \<Rightarrow> int \<Rightarrow> int \<Rightarrow> 'm list \<Rightarrow> 'a world_scheme
    \<Rightarrow> 'm publish_outcome \<times> 'a world_scheme" where
  "publishBatch_loop b rt ch queue prio ts [] w = (Published, w)"
| "publishBatch_loop b rt ch queue prio ts (message # rest) w =
     (let msgId = uuidv4 rt (uuids w);
          w1 = w\<lparr>uuids := Suc (uuids w)\<rparr>
      in case JSON_stringify rt message of
           None \<Rightarrow> batch_failed ''Converting circular structure to JSON'' w1
         | Some buf \<Rightarrow>
             (case send_message b ch queue buf prio msgId ts w1 of
                (Inl e, w2) \<Rightarrow> batch_failed e w2
              | (Inr sent, w2) \<Rightarrow>
                  if sent then publishBatch_loop b rt ch queue prio ts rest w2
                  else (AwaitingDrain rest, w2)))"

definition publishBatchToQueue ::
  "broker \<Rightarrow> 'm runtime \<Rightarrow> string \<Rightarrow> 'm list \<Rightarrow> int \<Rightarrow> 'a world_scheme
    \<Rightarrow> 'm publish_outcome \<times> 'a world_scheme" where
  "publishBatchToQueue b rt queue messages prio w =
     (case getChannel b ''publisher'' w of
        (Throw e, w1) \<Rightarrow> batch_failed e w1
      | (Pending, w1) \<Rightarrow> (AwaitingConnect, w1)
      | (Return ch, w1) \<Rightarrow>
          (case ensureQueue b ch queue w1 of
             (Some e, w2) \<Rightarrow> batch_failed e w2
           | (None, w2) \<Rightarrow> publishBatch_loop b rt ch queue prio (Date_now rt) messages w2))"

text \<open>
  A batch loop run with \<open>d\<close> drain events to come: each suspension consumes one and
  re-enters the loop; with none left the call stays suspended.
\<close>

fun publishBatch_drains ::
  "nat \<Rightarrow> broker \<Rightarrow> 'm runtime \<Rightarrow> channel \<Rightarrow> string \<Rightarrow> int \<Rightarrow> int \<Rightarrow> 'm list \<Rightarrow> 'a world_scheme
    \<Rightarrow> 'm publish_outcome \<times> 'a world_scheme" where
  "publishBatch_drains 0 b rt ch queue prio ts messages w =
     publishBatch_loop b rt ch queue prio ts messages w"
| "publishBatch_drains (Suc d) b rt ch queue prio ts messages w =
     (case publishBatch_loop b rt ch queue prio ts messages w of
        (AwaitingDrain rest, w') \<Rightarrow> publishBatch_drains d b rt ch queue prio ts rest w'
      | r \<Rightarrow> r)"

definition initPublisher :: "broker \<Rightarrow> 'a world_scheme \<Rightarrow> unit outcome \<times> 'a world_scheme" where
  "initPublisher b w =
     (case connect b w of
        (Threw e, w1) \<Rightarrow>
          (Throw e, w1\<lparr>errlog := errlog w1 @ [''Failed to initialize RabbitMQ publisher:'']\<rparr>)
      | (Polling, w1) \<Rightarrow> (Pending, w1)
      | (_, w1) \<Rightarrow>
          (case getChannel b ''publisher'' w1 of
             (Throw e, w2) \<Rightarrow>
               (Throw e, w2\<lparr>errlog := errlog w2 @ [''Failed to initialize RabbitMQ publisher:'']\<rparr>)
           | (Pending, w2) \<Rightarrow> (Pending, w2)
           | (Return ch, w2) \<Rightarrow> (Return (), w2)))"

definition disconnectPublisher :: "broker \<Rightarrow> 'a world_scheme \<Rightarrow> unit outcome \<times> 'a world_scheme" where
  "disconnectPublisher b w = closeChannel b ''publisher'' w"

text \<open>A broker that answers every request favourably, and a runtime for text payloads.\<close>

definition fair_broker :: broker where
  "fair_broker =
     \<lparr>amqp_connect = (\<lambda>n. None), createChannel = (\<lambda>n. None), prefetch = (\<lambda>n. None),
      channel_close = (\<lambda>n. None), connection_close = (\<lambda>n. None),
      assertQueue = (\<lambda>n q. None), sendToQueue = (\<lambda>n. Inr True)\<rparr>"

definition text_runtime :: "string runtime" where
  "text_runtime =
     \<lparr>JSON_stringify = (\<lambda>s. Some s), uuidv4 = (\<lambda>k. replicate (Suc k) CHR ''u''),
      Date_now = 1700000000000\<rparr>"

text \<open>\<open>clamp x lo hi\<close> in its usual meaning, written independently of the code.\<close>

definition clamp :: "int \<Rightarrow> int \<Rightarrow> int \<Rightarrow> int" where
  "clamp x lo hi = (if x < lo then lo else if hi < x then hi else x)"

section \<open>Idempotency ledger (repositories/webhook_event_log.repository.js)\<close>

text \<open>
  A row of the table \<open>webhook_event_logs\<close>, as its Sequelize model declares it. The
  generated primary key and \<open>created_at\<close> play no part in what follows and are left out.
  The table is the list of its rows; the database is taken to answer every query, so
  that the only error it raises is the violation of the unique index on \<open>event_id\<close>.
\<close>

datatype status = processing | processed | failed

record webhook_event_log =
  event_id :: string
  event_type :: string
  provider :: string
  payload :: "string option"
  processed_at :: int
  status :: status
  error_message :: "string option"

text \<open>The \<open>data\<close> object given to \<open>create\<close>; an absent property is \<open>None\<close>.\<close>

record create_data =
  eventId :: string
  eventType :: string
  data_provider :: string
  data_payload :: "string option"
  processedAt :: "int option"
  data_status :: "status option"
  errorMessage :: "string option"


definition create ::
  "create_data \<Rightarrow> int \<Rightarrow> webhook_event_log list \<Rightarrow> string + webhook_event_log list" where
  "create d now rows =
     (if \<exists>r \<in> set rows. event_id r = eventId d then Inl ''Validation error''
      else Inr (rows @
        [\<lparr>event_id = eventId d,
          event_type = eventType d,
          provider = data_provider d,
          payload = data_payload d,
          processed_at = (case processedAt d of None \<Rightarrow> now | Some t \<Rightarrow> t),
          status = (case data_status d of None \<Rightarrow> processed | Some s \<Rightarrow> s),
          error_message = (if truthy (errorMessage d) then errorMessage d else None)\<rparr>]))"

definition updateStatus ::
  "string \<Rightarrow> status \<Rightarrow> string option \<Rightarrow> webhook_event_log list \<Rightarrow> webhook_event_log list" where
  "updateStatus eid st err rows =
     map (\<lambda>r. if event_id r = eid then r\<lparr>status := st, error_message := err\<rparr> else r) rows"

section \<open>Stripe webhook controller (controllers/v1/stripeWebhook.controller.js)\<close>







text \<open>
  The business handlers reach services outside the messaging core, which work on the
  database as it is when they are called: whether a handler throws may depend on the
  ledger it finds. Their \<open>catch\<close> blocks log and throw the error again. \<open>journal\<close>
  keeps, in order, the writes of the ledger and the runs of the handlers.
\<close>

datatype handler =
  handlePaymentSucceeded | handlePaymentFailed | handleChargeRefunded
  | handlePayoutPaid | handlePayoutFailed

















text \<open>
  The manager after a first \<open>getChannel('publisher')\<close> on a fresh process, and a broker
  that rejects every \<open>channel.close()\<close>.
\<close>

definition publisher_cached :: manager where
  "publisher_cached = snd (getChannel fair_broker ''publisher'' new_manager)"

definition refusing_close_broker :: broker where
  "refusing_close_broker = fair_broker\<lparr>channel_close := (\<lambda>n. Some ''Channel closed'')\<rparr>"

section \<open>Retrying consumer\<close>

text \<open>
  Modelled from the spec: rabbitmq/retryingConsumer.js (\<open>createRetryingConsumer\<close>) is not
  among the sources; only its export in rabbitmq/index.js and the retry constants of the
  configuration are. The state machine per message is the one the specification gives:
  the handler is invoked on a received message; when it succeeds the message is
  acknowledged; when it fails and \<open>retryCount < maxRetries\<close> the message is republished to
  the retry queue with \<open>retryCount + 1\<close> and an original-queue header, and acknowledged off
  the main queue; when it fails and \<open>retryCount \<ge> maxRetries\<close> the message is published to
  the dead-letter queue verbatim, with failure metadata, and acknowledged. An entry of the
  retry queue becomes eligible for redelivery to the main queue after the fixed delay.
  Nothing leaves the dead-letter queue.
\<close>

record envelope =
  env_payload :: string
  env_messageId :: string
  env_priority :: int
  env_timestamp :: int
  env_persistent :: bool
  retryCount :: nat
  x_original_queue :: "string option"
  x_failure :: "string option"

datatype consumer_event =
  HandlerInvoked nat nat | Acknowledged nat | SentToRetry nat nat
  | Redelivered nat | DeadLettered nat nat

text \<open>
  The three queues of a base queue, the clock in milliseconds, and the trace of what the
  consumer did. A retry entry carries the time from which it may be redelivered.
\<close>

record queues =
  main_queue :: "envelope list"
  retry_queue :: "(nat \<times> envelope) list"
  dead_letter_queue :: "envelope list"
  clock :: nat
  trace :: "consumer_event list"

definition on_message :: "(envelope \<Rightarrow> string option) \<Rightarrow> string \<Rightarrow> envelope \<Rightarrow> queues \<Rightarrow> queues" where
  "on_message h base e s =
     (let s1 = s\<lparr>trace := trace s @ [HandlerInvoked (clock s) (retryCount e)]\<rparr>
      in case h e of
           None \<Rightarrow> s1\<lparr>trace := trace s1 @ [Acknowledged (clock s)]\<rparr>
         | Some err \<Rightarrow>
             if retryCount e < maxRetries
             then s1\<lparr>retry_queue := retry_queue s1 @
                        [(clock s + delayMs,
                          e\<lparr>retryCount := retryCount e + 1, x_original_queue := Some base\<rparr>)],
                     trace := trace s1 @ [SentToRetry (clock s) (retryCount e + 1)]\<rparr>
             else s1\<lparr>dead_letter_queue := dead_letter_queue s1 @ [e\<lparr>x_failure := Some err\<rparr>],
                     trace := trace s1 @ [DeadLettered (clock s) (retryCount e)]\<rparr>)"

text \<open>
  One move of the pipeline: the consumer takes the head of the main queue; with the main
  queue empty, time passes until the oldest retry entry is due and goes back to the main
  queue; with both empty nothing happens.
\<close>

definition consumer_step :: "(envelope \<Rightarrow> string option) \<Rightarrow> string \<Rightarrow> queues \<Rightarrow> queues" where
  "consumer_step h base s =
     (case main_queue s of
        e # rest \<Rightarrow> on_message h base e (s\<lparr>main_queue := rest\<rparr>)
      | [] \<Rightarrow>
          (case retry_queue s of
             (due, e) # rest \<Rightarrow>
               s\<lparr>retry_queue := rest, main_queue := [e], clock := max (clock s) due,
                 trace := trace s @ [Redelivered (max (clock s) due)]\<rparr>
           | [] \<Rightarrow> s))"

fun consumer_run :: "nat \<Rightarrow> (envelope \<Rightarrow> string option) \<Rightarrow> string \<Rightarrow> queues \<Rightarrow> queues" where
  "consumer_run 0 h base s = s"
| "consumer_run (Suc n) h base s = consumer_run n h base (consumer_step h base s)"

definition always_fails :: "string \<Rightarrow> envelope \<Rightarrow> string option" where
  "always_fails err e = Some err"

definition received :: "envelope \<Rightarrow> nat \<Rightarrow> queues" where
  "received e t0 =
     \<lparr>main_queue = [e], retry_queue = [], dead_letter_queue = [], clock = t0, trace = []\<rparr>"

definition retry_bound :: "queues \<Rightarrow> bool" where
  "retry_bound s =
     ((\<forall>e \<in> set (main_queue s). retryCount e \<le> maxRetries)
      \<and> (\<forall>(due, e) \<in> set (retry_queue s). retryCount e \<le> maxRetries)
      \<and> (\<forall>e \<in> set (dead_letter_queue s). retryCount e \<le> maxRetries))"

definition is_retry :: "consumer_event \<Rightarrow> bool" where
  "is_retry x = (case x of SentToRetry t r \<Rightarrow> True | _ \<Rightarrow> False)"

definition invocation_times :: "consumer_event list \<Rightarrow> nat list" where
  "invocation_times tr = concat (map (\<lambda>x. case x of HandlerInvoked t r \<Rightarrow> [t] | _ \<Rightarrow> []) tr)"

definition order_o1 :: envelope where
  "order_o1 =
     \<lparr>env_payload = ''{orderId: o1}'', env_messageId = ''m1'', env_priority = 8,
      env_timestamp = 0, env_persistent = True, retryCount = 0, x_original_queue = None,
      x_failure = None\<rparr>"

text \<open>
  Where a message that always fails ends when it was first received at time \<open>t0\<close>: alone
  in the dead-letter queue, after six invocations one minute apart.
\<close>

definition parked :: "envelope \<Rightarrow> string \<Rightarrow> string \<Rightarrow> nat \<Rightarrow> queues" where
  "parked e base err t0 =
     \<lparr>main_queue = [], retry_queue = [],
      dead_letter_queue =
        [e\<lparr>retryCount := 5, x_original_queue := Some base, x_failure := Some err\<rparr>],
      clock = t0 + 300000,
      trace =
        [HandlerInvoked t0 0, SentToRetry t0 1, Redelivered (t0 + 60000),
         HandlerInvoked (t0 + 60000) 1, SentToRetry (t0 + 60000) 2, Redelivered (t0 + 120000),
         HandlerInvoked (t0 + 120000) 2, SentToRetry (t0 + 120000) 3, Redelivered (t0 + 180000),
         HandlerInvoked (t0 + 180000) 3, SentToRetry (t0 + 180000) 4, Redelivered (t0 + 240000),
         HandlerInvoked (t0 + 240000) 4, SentToRetry (t0 + 240000) 5, Redelivered (t0 + 300000),
         HandlerInvoked (t0 + 300000) 5, DeadLettered (t0 + 300000) 5]\<rparr>"

text \<open>
  The sends numbered \<open>base\<close>, ..., \<open>base + n - 1\<close> that report a full buffer.
\<close>

definition full_sends :: "broker \<Rightarrow> nat \<Rightarrow> nat \<Rightarrow> nat" where
  "full_sends b base n = length (filter (\<lambda>i. sendToQueue b i = Inr False) [base..<base + n])"

text \<open>
  A broker whose sends number 0, 2, 4, ... report a full buffer, and the publisher channel.
\<close>

definition congested_broker :: broker where
  "congested_broker = fair_broker\<lparr>sendToQueue := (\<lambda>n. Inr (odd n))\<rparr>"

definition publisher_channel :: channel where
  "publisher_channel = \<lparr>ch_id = 0, ch_conn = 0, ch_prefetch = 1\<rparr>"

section \<open>Callers of the connection manager, interleaved\<close>

text \<open>
  Several calls of \<open>connect()\<close> in flight on the one event loop. \<open>Call\<close> is a new call:
  an async function runs at once up to its first \<open>await\<close>. \<open>Resume i\<close> lets the
  \<open>i\<close>-th call go on after what it awaited (the 100 ms timer, or the broker's answer).
  \<open>Closed\<close> is the connection's \<open>close\<close> event, \<open>Reconnect\<close> the firing of a pending
  reconnect timer, which calls \<open>connect()\<close>. Each event comes with the broker that
  answers it.
\<close>

datatype sys_event = Call | Resume nat | Closed | Reconnect

definition awaiting :: "connect_pc \<Rightarrow> bool" where
  "awaiting pc = (case pc of Awaiting n \<Rightarrow> True | _ \<Rightarrow> False)"

fun sys_step ::
  "broker \<times> sys_event \<Rightarrow> connect_pc list \<times> 'a manager_scheme
    \<Rightarrow> connect_pc list \<times> 'a manager_scheme" where
  "sys_step (b, Call) (pcs, m) =
     (case connect_step b Entry m of (pc, m') \<Rightarrow> (pcs @ [pc], m'))"
| "sys_step (b, Resume i) (pcs, m) =
     (if i < length pcs
      then (case connect_step b (pcs ! i) m of (pc, m') \<Rightarrow> (pcs[i := pc], m'))
      else (pcs, m))"
| "sys_step (b, Closed) (pcs, m) = (pcs, on_connection_close m)"
| "sys_step (b, Reconnect) (pcs, m) =
     (case timers m of
        [] \<Rightarrow> (pcs, m)
      | t # ts \<Rightarrow>
          (case connect_step b Entry (m\<lparr>timers := ts\<rparr>) of (pc, m') \<Rightarrow> (pcs @ [pc], m')))"

fun sys_run ::
  "(broker \<times> sys_event) list \<Rightarrow> connect_pc list \<times> 'a manager_scheme
    \<Rightarrow> connect_pc list \<times> 'a manager_scheme" where
  "sys_run [] s = s"
| "sys_run (e # es) s = sys_run es (sys_step e s)"

text \<open>
  At most one attempt is in flight, exactly when \<open>isConnecting\<close> holds, and then there
  is no connection.
\<close>

definition one_attempt :: "connect_pc list \<times> 'a manager_scheme \<Rightarrow> bool" where
  "one_attempt s =
     (length (filter awaiting (fst s)) = (if isConnecting (snd s) then 1 else 0)
      \<and> (isConnecting (snd s) \<longrightarrow> connection (snd s) = None))"

definition live_manager :: manager where
  "live_manager = new_manager\<lparr>connection := Some 0, attempts := 1\<rparr>"

definition busy_manager :: manager where
  "busy_manager = new_manager\<lparr>isConnecting := True, attempts := 1\<rparr>"

section \<open>Calls of getChannel, interleaved with the events of the connection\<close>

text \<open>
  \<open>getChannel(name)\<close> suspends three times before it caches the channel: at
  \<open>await this.connect()\<close> when there is no connection, at
  \<open>await this.connection.createChannel()\<close>, and at \<open>await channel.prefetch(1)\<close>.
  \<open>GConnecting\<close> holds the state of the inner \<open>connect()\<close>; \<open>GCreating n c\<close> is the
  pending \<open>createChannel\<close> number \<open>n\<close> on the connection \<open>c\<close>; \<open>GPrefetching ch\<close> is the
  pending \<open>prefetch\<close> on the channel just opened. Only when the last one resolves does
  \<open>this.channels.set(name, channel)\<close> run.
\<close>

datatype get_pc =
  GConnecting connect_pc | GCreating nat nat | GPrefetching channel
  | GReturned channel | GThrew string

definition begin_create :: "string \<Rightarrow> 'a manager_scheme \<Rightarrow> get_pc \<times> 'a manager_scheme" where
  "begin_create name m =
     (case connection m of
        None \<Rightarrow>
          (GThrew ''Cannot read properties of null'',
           m\<lparr>errlog := errlog m @ [''Failed to create channel (''  @ name @ ''):'']\<rparr>)
      | Some c \<Rightarrow> (GCreating (opened m) c, m\<lparr>opened := Suc (opened m)\<rparr>))"

definition after_connect ::
  "string \<Rightarrow> connect_pc \<times> 'a manager_scheme \<Rightarrow> get_pc \<times> 'a manager_scheme" where
  "after_connect name r =
     (case r of
        (Returned x, m) \<Rightarrow> begin_create name m
      | (Threw e, m) \<Rightarrow> (GThrew e, m)
      | (pc, m) \<Rightarrow> (GConnecting pc, m))"

definition getChannel_entry ::
  "broker \<Rightarrow> string \<Rightarrow> 'a manager_scheme \<Rightarrow> get_pc \<times> 'a manager_scheme" where
  "getChannel_entry b name m =
     (case map_of (channels m) name of
        Some ch \<Rightarrow> (GReturned ch, m)
      | None \<Rightarrow>
          if connection m = None then after_connect name (connect_step b Entry m)
          else begin_create name m)"

fun getChannel_resume ::
  "broker \<Rightarrow> string \<Rightarrow> get_pc \<Rightarrow> 'a manager_scheme \<Rightarrow> get_pc \<times> 'a manager_scheme" where
  "getChannel_resume b name (GConnecting pc) m = after_connect name (connect_step b pc m)"
| "getChannel_resume b name (GCreating n c) m =
     (case createChannel b n of
        Some e \<Rightarrow>
          (GThrew e, m\<lparr>errlog := errlog m @ [''Failed to create channel ('' @ name @ ''):'']\<rparr>)
      | None \<Rightarrow> (GPrefetching \<lparr>ch_id = n, ch_conn = c, ch_prefetch = 1\<rparr>, m))"
| "getChannel_resume b name (GPrefetching ch) m =
     (case prefetch b (ch_id ch) of
        Some e \<Rightarrow>
          (GThrew e, m\<lparr>errlog := errlog m @ [''Failed to create channel ('' @ name @ ''):'']\<rparr>)
      | None \<Rightarrow> (GReturned ch, m\<lparr>channels := AList.update name ch (channels m)\<rparr>))"
| "getChannel_resume b name (GReturned ch) m = (GReturned ch, m)"
| "getChannel_resume b name (GThrew e) m = (GThrew e, m)"

text \<open>
  A call of \<open>getChannel\<close> that nothing interrupts: the entry and the three answers it
  may have to wait for, one after the other.
\<close>

definition settled :: "get_pc \<Rightarrow> channel outcome" where
  "settled pc = (case pc of GReturned ch \<Rightarrow> Return ch | GThrew e \<Rightarrow> Throw e | _ \<Rightarrow> Pending)"

definition getChannel_uninterrupted ::
  "broker \<Rightarrow> string \<Rightarrow> 'a manager_scheme \<Rightarrow> get_pc \<times> 'a manager_scheme" where
  "getChannel_uninterrupted b name m =
     (case getChannel_entry b name m of (pc0, m0) \<Rightarrow>
      case getChannel_resume b name pc0 m0 of (pc1, m1) \<Rightarrow>
      case getChannel_resume b name pc1 m1 of (pc2, m2) \<Rightarrow>
        getChannel_resume b name pc2 m2)"

text \<open>
  The calls in flight on the manager. \<open>Invoke_connect\<close> and \<open>Invoke_getChannel\<close> are
  new calls, run at once up to their first \<open>await\<close>; \<open>Continue i\<close> lets the \<open>i\<close>-th call
  go on after what it awaited; \<open>Close_signalled\<close> is the \<open>close\<close> event of the
  connection; \<open>Timer_fired\<close> is the firing of a pending reconnect timer, whose callback
  calls \<open>connect()\<close> and logs its failure.
\<close>

datatype task = Connect_call connect_pc | Reconnect_call connect_pc | GetChannel_call string get_pc

datatype mgr_event =
  Invoke_connect | Invoke_getChannel string | Continue nat | Close_signalled | Timer_fired

definition continue_task ::
  "broker \<Rightarrow> task \<Rightarrow> 'a manager_scheme \<Rightarrow> task \<times> 'a manager_scheme" where
  "continue_task b t m =
     (case t of
        Connect_call pc \<Rightarrow> (case connect_step b pc m of (pc', m') \<Rightarrow> (Connect_call pc', m'))
      | Reconnect_call pc \<Rightarrow>
          (case connect_step b pc m of
             (Threw e, m') \<Rightarrow>
               (Reconnect_call (Threw e),
                if pc = Threw e then m'
                else m'\<lparr>errlog := errlog m' @ [''Failed to reconnect to RabbitMQ:'']\<rparr>)
           | (pc', m') \<Rightarrow> (Reconnect_call pc', m'))
      | GetChannel_call name pc \<Rightarrow>
          (case getChannel_resume b name pc m of (pc', m') \<Rightarrow> (GetChannel_call name pc', m')))"

fun mgr_step ::
  "broker \<times> mgr_event \<Rightarrow> task list \<times> 'a manager_scheme \<Rightarrow> task list \<times> 'a manager_scheme" where
  "mgr_step (b, Invoke_connect) (ts, m) =
     (case connect_step b Entry m of (pc, m') \<Rightarrow> (ts @ [Connect_call pc], m'))"
| "mgr_step (b, Invoke_getChannel name) (ts, m) =
     (case getChannel_entry b name m of (pc, m') \<Rightarrow> (ts @ [GetChannel_call name pc], m'))"
| "mgr_step (b, Continue i) (ts, m) =
     (if i < length ts
      then (case continue_task b (ts ! i) m of (t, m') \<Rightarrow> (ts[i := t], m'))
      else (ts, m))"
| "mgr_step (b, Close_signalled) (ts, m) = (ts, on_connection_close m)"
| "mgr_step (b, Timer_fired) (ts, m) =
     (case timers m of
        [] \<Rightarrow> (ts, m)
      | t # rest \<Rightarrow>
          (case connect_step b Entry (m\<lparr>timers := rest\<rparr>) of
             (pc, m') \<Rightarrow> (ts @ [Reconnect_call pc], m')))"

fun mgr_run ::
  "(broker \<times> mgr_event) list \<Rightarrow> task list \<times> 'a manager_scheme
    \<Rightarrow> task list \<times> 'a manager_scheme" where
  "mgr_run [] s = s"
| "mgr_run (e # es) s = mgr_run es (mgr_step e s)"

text \<open>
  A first \<open>getChannel('publisher')\<close> on a fresh process, up to its pending \<open>prefetch\<close>;
  then the connection closes, the \<open>prefetch\<close> resolves, the reconnect timer fires and
  its \<open>connect()\<close> succeeds.
\<close>

definition up_to_prefetch :: "(broker \<times> mgr_event) list" where
  "up_to_prefetch =
     [(fair_broker, Invoke_getChannel ''publisher''), (fair_broker, Continue 0),
      (fair_broker, Continue 0)]"

definition closed_then_reconnected :: "(broker \<times> mgr_event) list" where
  "closed_then_reconnected =
     [(fair_broker, Close_signalled), (fair_broker, Continue 0), (fair_broker, Timer_fired),
      (fair_broker, Continue 1)]"

section \<open>Publisher: what a publish hands to the channel\<close>

lemma connect_frame:
  "connect b w = (r, w') \<Longrightarrow> outbox w' = outbox w \<and> uuids w' = uuids w \<and> declared w' = declared w"
  by (auto simp: connect_def split: option.splits if_splits)

lemma open_channel_frame:
  "open_channel b n w = (r, w') \<Longrightarrow> outbox w' = outbox w \<and> uuids w' = uuids w \<and> declared w' = declared w"
  by (auto simp: open_channel_def Let_def split: option.splits if_splits)

lemma getChannel_frame:
  "getChannel b n w = (r, w') \<Longrightarrow> outbox w' = outbox w \<and> uuids w' = uuids w \<and> declared w' = declared w"
  by (auto simp: getChannel_def split: option.splits prod.splits connect_pc.splits if_splits
      dest!: connect_frame open_channel_frame)

lemma ensureQueue_frame:
  "ensureQueue b ch q w = (r, w') \<Longrightarrow> outbox w' = outbox w \<and> uuids w' = uuids w"
  by (auto simp: ensureQueue_def split: option.splits)

lemma send_message_sent:
  "send_message b ch q buf p mid ts w = (Inr sent, w') \<Longrightarrow>
     \<exists>s. outbox w' = outbox w @ [s] \<and> priority (options s) = clamp p 0 10
        \<and> messageId (options s) = mid
        \<and> map_of (headers (options s)) ''priority'' = Some (toString p) \<and> uuids w' = uuids w"
  by (auto simp: send_message_def clamp_def split: sum.splits)

lemma send_message_threw:
  "send_message b ch q buf p mid ts w = (Inl e, w') \<Longrightarrow> outbox w' = outbox w"
  by (auto simp: send_message_def split: sum.splits)

lemma send_message_fst:
  "fst (send_message b ch q buf p mid ts w) = sendToQueue b (length (outbox w))"
  by (auto simp: send_message_def split: sum.splits)

lemma publish_failed_frame: "publish_failed e w = (r, w') \<Longrightarrow> outbox w' = outbox w"
  by (auto simp: publish_failed_def)

lemma publish_body_sent:
  assumes "publish_body b rt ch q msg p mid w = (out, w')"
    and "out = Published \<or> out = AwaitingDrain []"
  shows "\<exists>s. outbox w' = outbox w @ [s] \<and> priority (options s) = clamp p 0 10
        \<and> messageId (options s) = or_else mid (uuidv4 rt (uuids w))
        \<and> map_of (headers (options s)) ''priority'' = Some (toString p)"
  using assms
  by (auto simp: publish_body_def Let_def publish_failed_def
      split: prod.splits option.splits sum.splits if_splits
      dest!: send_message_sent)

lemma publish_body_fst:
  "fst (publish_body b rt ch q msg p mid w) =
     (case JSON_stringify rt msg of
        None \<Rightarrow> Failed (''Failed to publish message to queue: '' @ ''Converting circular structure to JSON'')
      | Some buf \<Rightarrow>
         (case sendToQueue b (length (outbox w)) of
            Inl e \<Rightarrow> Failed (''Failed to publish message to queue: '' @ e)
          | Inr sent \<Rightarrow> if sent then Published else AwaitingDrain []))"
  by (auto simp: publish_body_def Let_def publish_failed_def send_message_def
      split: prod.splits option.splits sum.splits if_splits)

lemma publishToQueue_sent:
  assumes "publishToQueue b rt q msg p mid w = (out, w')"
    and "out = Published \<or> out = AwaitingDrain []"
  shows "\<exists>s. outbox w' = outbox w @ [s] \<and> priority (options s) = clamp p 0 10
        \<and> messageId (options s) = or_else mid (uuidv4 rt (uuids w))
        \<and> map_of (headers (options s)) ''priority'' = Some (toString p)"
proof -
  from assms obtain ch w1 w2 where
    g: "getChannel b ''publisher'' w = (Return ch, w1)" and
    e: "ensureQueue b ch q w1 = (None, w2)" and
    pb: "publish_body b rt ch q msg p mid w2 = (out, w')"
    by (auto simp: publishToQueue_def publish_failed_def
        split: prod.splits outcome.splits option.splits)
  from getChannel_frame[OF g] ensureQueue_frame[OF e]
  have "outbox w2 = outbox w" "uuids w2 = uuids w" by simp_all
  with publish_body_sent[OF pb assms(2)] show ?thesis by simp
qed

lemma publishToQueue_fst_indep:
  "fst (publishToQueue b rt q msg p mid w) = fst (publishToQueue b rt q msg p' mid w)"
  by (auto simp: publishToQueue_def publish_body_fst publish_failed_def
      split: prod.splits outcome.splits option.splits)

lemma lt10_cases: "d < 10 \<Longrightarrow> d \<in> {0, 1, 2, 3, 4, 5, 6, 7, 8, 9::nat}"
  by auto

lemma digit_val_digit_char: "d < 10 \<Longrightarrow> digit_val (digit_char d) = d"
  by (drule lt10_cases) (auto simp: digit_val_def digit_char_def)

lemma digit_char_not_minus: "d < 10 \<Longrightarrow> digit_char d \<noteq> CHR ''-''"
  by (drule lt10_cases) (auto simp: digit_char_def)

lemma digits_val_snoc: "digits_val (s @ [c]) = 10 * digits_val s + digit_val c"
  by (simp add: digits_val_def)

lemma digits_val_nat_digits: "digits_val (nat_digits n) = n"
proof (induction n rule: nat_digits.induct)
  case (1 n)
  show ?case
  proof (cases "n < 10")
    case True
    then show ?thesis
      by (subst nat_digits.simps) (simp add: digits_val_def digit_val_digit_char)
  next
    case False
    with 1 have "digits_val (nat_digits (n div 10)) = n div 10" by simp
    with False show ?thesis
      by (subst nat_digits.simps) (simp add: digits_val_snoc digit_val_digit_char)
  qed
qed

lemma nat_digits_head: "\<exists>c cs. nat_digits n = c # cs \<and> c \<noteq> CHR ''-''"
proof (induction n rule: nat_digits.induct)
  case (1 n)
  show ?case
  proof (cases "n < 10")
    case True
    then show ?thesis by (subst nat_digits.simps) (simp add: digit_char_not_minus)
  next
    case False
    with 1 obtain c cs where "nat_digits (n div 10) = c # cs" "c \<noteq> CHR ''-''" by auto
    with False show ?thesis by (subst nat_digits.simps) simp
  qed
qed

lemma parseInt_toString: "parseInt (toString i) = i"
proof (cases "i < 0")
  case True
  then show ?thesis by (simp add: parseInt_def toString_def digits_val_nat_digits)
next
  case False
  obtain c cs where h: "nat_digits (nat i) = c # cs" "c \<noteq> CHR ''-''"
    using nat_digits_head by blast
  have "digits_val (c # cs) = nat i" using digits_val_nat_digits[of "nat i"] h by simp
  with False h show ?thesis by (simp add: parseInt_def toString_def)
qed

lemma toString_inj: "toString i = toString j \<Longrightarrow> i = j"
  by (metis parseInt_toString)

lemma batch_failed_frame: "batch_failed e w = (r, w') \<Longrightarrow> outbox w' = outbox w"
  by (auto simp: batch_failed_def)

lemma publishBatch_loop_sent:
  "publishBatch_loop b rt ch q p ts msgs w = (out, w') \<Longrightarrow>
     \<exists>new. outbox w' = outbox w @ new \<and>
       (\<forall>s \<in> set new. priority (options s) = clamp p 0 10
           \<and> map_of (headers (options s)) ''priority'' = Some (toString p))"
proof (induction msgs arbitrary: w)
  case Nil
  then show ?case by simp
next
  case (Cons m msgs)
  show ?case
  proof (cases "JSON_stringify rt m")
    case None
    with Cons.prems show ?thesis by (auto simp: batch_failed_def)
  next
    case (Some buf)
    let ?w1 = "w\<lparr>uuids := Suc (uuids w)\<rparr>"
    obtain r w2 where sm: "send_message b ch q buf p (uuidv4 rt (uuids w)) ts ?w1 = (r, w2)"
      by (cases "send_message b ch q buf p (uuidv4 rt (uuids w)) ts ?w1") auto
    show ?thesis
    proof (cases r)
      case (Inl e)
      with sm send_message_threw[of b ch q buf p _ ts ?w1 e w2] Cons.prems Some
      show ?thesis by (auto simp: batch_failed_def Let_def)
    next
      case (Inr sent)
      with sm send_message_sent[of b ch q buf p _ ts ?w1 sent w2]
      obtain s where s: "outbox w2 = outbox w @ [s]" "priority (options s) = clamp p 0 10"
        "map_of (headers (options s)) ''priority'' = Some (toString p)"
        by auto
      show ?thesis
      proof (cases sent)
        case True
        with Cons.prems Some sm Inr
        have "publishBatch_loop b rt ch q p ts msgs w2 = (out, w')" by (simp add: Let_def)
        from Cons.IH[OF this] obtain new where
          "outbox w' = outbox w2 @ new"
          "\<forall>s \<in> set new. priority (options s) = clamp p 0 10
             \<and> map_of (headers (options s)) ''priority'' = Some (toString p)"
          by blast
        with s show ?thesis by (intro exI[of _ "s # new"]) simp
      next
        case False
        with Cons.prems Some sm Inr have "w' = w2" by (simp add: Let_def)
        with s show ?thesis by (intro exI[of _ "[s]"]) simp
      qed
    qed
  qed
qed

lemma publishBatch_loop_fst:
  "length (outbox w) = length (outbox v) \<Longrightarrow>
   fst (publishBatch_loop b rt ch q p ts msgs w) = fst (publishBatch_loop b rt ch q p' ts' msgs v)"
proof (induction msgs arbitrary: w v)
  case Nil
  then show ?case by simp
next
  case (Cons m msgs)
  show ?case
  proof (cases "JSON_stringify rt m")
    case None
    then show ?thesis by (simp add: batch_failed_def)
  next
    case (Some buf)
    show ?thesis
    proof (cases "sendToQueue b (length (outbox v))")
      case (Inl e)
      with Some Cons.prems show ?thesis
        by (simp add: send_message_def batch_failed_def Let_def)
    next
      case (Inr sent)
      with Some Cons.prems show ?thesis
        by (simp add: send_message_def Let_def Cons.IH)
    qed
  qed
qed

lemma publishBatchToQueue_sent:
  assumes "publishBatchToQueue b rt q msgs p w = (out, w')"
  shows "\<exists>new. outbox w' = outbox w @ new \<and>
       (\<forall>s \<in> set new. priority (options s) = clamp p 0 10
           \<and> map_of (headers (options s)) ''priority'' = Some (toString p))"
proof (cases "getChannel b ''publisher'' w")
  case (Pair r w1)
  note g = getChannel_frame[OF Pair]
  show ?thesis
  proof (cases r)
    case (Return ch)
    obtain e w2 where eq: "ensureQueue b ch q w1 = (e, w2)" by (cases "ensureQueue b ch q w1") auto
    note f = ensureQueue_frame[OF eq]
    show ?thesis
    proof (cases e)
      case None
      with assms Pair Return eq
      have "publishBatch_loop b rt ch q p (Date_now rt) msgs w2 = (out, w')"
        by (simp add: publishBatchToQueue_def)
      from publishBatch_loop_sent[OF this] g f show ?thesis by simp
    next
      case (Some a)
      with assms Pair Return eq g f show ?thesis
        by (auto simp: publishBatchToQueue_def batch_failed_def)
    qed
  next
    case (Throw e)
    with assms Pair g show ?thesis by (auto simp: publishBatchToQueue_def batch_failed_def)
  next
    case Pending
    with assms Pair g show ?thesis by (auto simp: publishBatchToQueue_def)
  qed
qed

lemma publishBatchToQueue_fst_indep:
  "fst (publishBatchToQueue b rt q msgs p w) = fst (publishBatchToQueue b rt q msgs p' w)"
  by (auto simp: publishBatchToQueue_def batch_failed_def
      intro: publishBatch_loop_fst
      split: prod.splits outcome.splits option.splits)

text \<open>The definitions a concrete run unfolds.\<close>

lemmas run_defs =
  publishToQueue_def publishBatchToQueue_def getChannel_def connect_def open_channel_def
  ensureQueue_def publish_body_def send_message_def new_world_def new_manager_def
  fair_broker_def text_runtime_def manager.extend_def or_else_def truthy_def Let_def

text \<open>
  Claim C4. Whatever integer priority \<open>p\<close> a publish is given, every message it hands to
  the channel carries the AMQP priority \<open>clamp p 0 10\<close>: the single publish, the batch,
  and the batch loop re-entered after a drain. The priority never decides whether the
  call succeeds: its outcome is the one the in-range priority 5 gives.
\<close>

theorem publish_priority_clamped:
  "(publishToQueue b rt q msg p mid w = (out, w') \<and> (out = Published \<or> out = AwaitingDrain [])
      \<longrightarrow> (\<exists>s. outbox w' = outbox w @ [s] \<and> priority (options s) = clamp p 0 10))
   \<and> (publishBatchToQueue b rt q msgs p w = (bout, bw')
      \<longrightarrow> (\<exists>new. outbox bw' = outbox w @ new
            \<and> (\<forall>s \<in> set new. priority (options s) = clamp p 0 10)))
   \<and> (publishBatch_loop b rt ch q p ts msgs w = (lout, lw')
      \<longrightarrow> (\<exists>new. outbox lw' = outbox w @ new
            \<and> (\<forall>s \<in> set new. priority (options s) = clamp p 0 10)))
   \<and> fst (publishToQueue b rt q msg p mid w) = fst (publishToQueue b rt q msg 5 mid w)
   \<and> fst (publishBatchToQueue b rt q msgs p w) = fst (publishBatchToQueue b rt q msgs 5 w)"
proof (intro conjI impI)
  assume "publishToQueue b rt q msg p mid w = (out, w') \<and> (out = Published \<or> out = AwaitingDrain [])"
  then show "\<exists>s. outbox w' = outbox w @ [s] \<and> priority (options s) = clamp p 0 10"
    using publishToQueue_sent[of b rt q msg p mid w out w'] by blast
next
  assume "publishBatchToQueue b rt q msgs p w = (bout, bw')"
  from publishBatchToQueue_sent[OF this]
  show "\<exists>new. outbox bw' = outbox w @ new \<and> (\<forall>s \<in> set new. priority (options s) = clamp p 0 10)"
    by blast
next
  assume "publishBatch_loop b rt ch q p ts msgs w = (lout, lw')"
  from publishBatch_loop_sent[OF this]
  show "\<exists>new. outbox lw' = outbox w @ new \<and> (\<forall>s \<in> set new. priority (options s) = clamp p 0 10)"
    by blast
next
  show "fst (publishToQueue b rt q msg p mid w) = fst (publishToQueue b rt q msg 5 mid w)"
    by (rule publishToQueue_fst_indep)
next
  show "fst (publishBatchToQueue b rt q msgs p w) = fst (publishBatchToQueue b rt q msgs 5 w)"
    by (rule publishBatchToQueue_fst_indep)
qed

theorem publish_priority_clamped_witness:
  "fst (publishToQueue fair_broker text_runtime ''image.processing'' ''{}'' (- 5) None new_world)
     = Published
   \<and> map (priority \<circ> options)
       (outbox (snd (publishToQueue fair_broker text_runtime ''image.processing'' ''{}'' (- 5) None
          new_world))) = [0]
   \<and> fst (publishToQueue fair_broker text_runtime ''image.processing'' ''{}'' 99 None new_world)
     = Published
   \<and> map (priority \<circ> options)
       (outbox (snd (publishToQueue fair_broker text_runtime ''image.processing'' ''{}'' 99 None
          new_world))) = [10]
   \<and> map (priority \<circ> options)
       (outbox (snd (publishBatchToQueue fair_broker text_runtime ''image.processing''
          [''{}'', ''[]''] 99 new_world))) = [10, 10]"
  using publish_priority_clamped[of fair_broker text_runtime "''image.processing''" "''{}''" "- 5"
      None new_world Published
      "snd (publishToQueue fair_broker text_runtime ''image.processing'' ''{}'' (- 5) None new_world)"]
  by (simp add: run_defs clamp_def)

lemma header_differs:
  "p < 0 \<or> 10 < p \<Longrightarrow> toString p \<noteq> toString (clamp p 0 10)"
  by (auto simp: clamp_def dest!: toString_inj)

text \<open>
  Claim C10. The \<open>priority\<close> header of every message a publish hands to the channel is
  the caller's priority as a decimal string, not clamped; for a priority outside 0..10 it
  is therefore not the string of the AMQP priority option of the same message.
\<close>

theorem headers_priority_unclamped:
  "(publishToQueue b rt q msg p mid w = (out, w') \<and> (out = Published \<or> out = AwaitingDrain [])
      \<longrightarrow> (\<exists>s. outbox w' = outbox w @ [s]
            \<and> map_of (headers (options s)) ''priority'' = Some (toString p)
            \<and> (p < 0 \<or> 10 < p \<longrightarrow>
                 map_of (headers (options s)) ''priority''
                   \<noteq> Some (toString (priority (options s))))))
   \<and> (publishBatchToQueue b rt q msgs p w = (bout, bw')
      \<longrightarrow> (\<exists>new. outbox bw' = outbox w @ new
            \<and> (\<forall>s \<in> set new.
                  map_of (headers (options s)) ''priority'' = Some (toString p)
                  \<and> (p < 0 \<or> 10 < p \<longrightarrow>
                       map_of (headers (options s)) ''priority''
                         \<noteq> Some (toString (priority (options s)))))))
   \<and> (publishBatch_loop b rt ch q p ts msgs w = (lout, lw')
      \<longrightarrow> (\<exists>new. outbox lw' = outbox w @ new
            \<and> (\<forall>s \<in> set new.
                  map_of (headers (options s)) ''priority'' = Some (toString p)
                  \<and> (p < 0 \<or> 10 < p \<longrightarrow>
                       map_of (headers (options s)) ''priority''
                         \<noteq> Some (toString (priority (options s)))))))"
proof (intro conjI impI)
  assume "publishToQueue b rt q msg p mid w = (out, w') \<and> (out = Published \<or> out = AwaitingDrain [])"
  then obtain s where "outbox w' = outbox w @ [s]" "priority (options s) = clamp p 0 10"
    "map_of (headers (options s)) ''priority'' = Some (toString p)"
    using publishToQueue_sent[of b rt q msg p mid w out w'] by blast
  then show "\<exists>s. outbox w' = outbox w @ [s]
            \<and> map_of (headers (options s)) ''priority'' = Some (toString p)
            \<and> (p < 0 \<or> 10 < p \<longrightarrow>
                 map_of (headers (options s)) ''priority''
                   \<noteq> Some (toString (priority (options s))))"
    using header_differs[of p] by auto
next
  assume "publishBatchToQueue b rt q msgs p w = (bout, bw')"
  from publishBatchToQueue_sent[OF this] obtain new where
    "outbox bw' = outbox w @ new"
    "\<forall>s \<in> set new. priority (options s) = clamp p 0 10
           \<and> map_of (headers (options s)) ''priority'' = Some (toString p)"
    by blast
  then show "\<exists>new. outbox bw' = outbox w @ new
            \<and> (\<forall>s \<in> set new.
                  map_of (headers (options s)) ''priority'' = Some (toString p)
                  \<and> (p < 0 \<or> 10 < p \<longrightarrow>
                       map_of (headers (options s)) ''priority''
                         \<noteq> Some (toString (priority (options s)))))"
    using header_differs[of p] by auto
next
  assume "publishBatch_loop b rt ch q p ts msgs w = (lout, lw')"
  from publishBatch_loop_sent[OF this] obtain new where
    "outbox lw' = outbox w @ new"
    "\<forall>s \<in> set new. priority (options s) = clamp p 0 10
           \<and> map_of (headers (options s)) ''priority'' = Some (toString p)"
    by blast
  then show "\<exists>new. outbox lw' = outbox w @ new
            \<and> (\<forall>s \<in> set new.
                  map_of (headers (options s)) ''priority'' = Some (toString p)
                  \<and> (p < 0 \<or> 10 < p \<longrightarrow>
                       map_of (headers (options s)) ''priority''
                         \<noteq> Some (toString (priority (options s)))))"
    using header_differs[of p] by auto
qed

theorem headers_priority_unclamped_witness:
  "fst (publishToQueue fair_broker text_runtime ''image.processing'' ''{}'' 99 None new_world)
     = Published
   \<and> map (\<lambda>s. (map_of (headers (options s)) ''priority'', priority (options s)))
       (outbox (snd (publishToQueue fair_broker text_runtime ''image.processing'' ''{}'' 99 None
          new_world))) = [(Some ''99'', 10)]
   \<and> map (\<lambda>s. (map_of (headers (options s)) ''priority'', priority (options s)))
       (outbox (snd (publishBatchToQueue fair_broker text_runtime ''image.processing''
          [''{}'', ''[]''] (- 5) new_world))) = [(Some ''-5'', 0), (Some ''-5'', 0)]"
  using headers_priority_unclamped[of fair_broker text_runtime "''image.processing''" "''{}''" 99
      None new_world Published
      "snd (publishToQueue fair_broker text_runtime ''image.processing'' ''{}'' 99 None new_world)"]
  by (simp add: run_defs toString_def nat_digits.simps digit_char_def)

subsection \<open>The message identifier\<close>

lemma publish_body_uuids:
  assumes "publish_body b rt ch q msg p mid w = (out, w')"
    and "out = Published \<or> out = AwaitingDrain []"
  shows "uuids w' = (if truthy mid then uuids w else Suc (uuids w))"
  using assms
  by (auto simp: publish_body_def Let_def publish_failed_def
      split: prod.splits option.splits sum.splits if_splits
      dest!: send_message_sent)

lemma publishToQueue_uuids:
  assumes "publishToQueue b rt q msg p mid w = (out, w')"
    and "out = Published \<or> out = AwaitingDrain []"
  shows "uuids w' = (if truthy mid then uuids w else Suc (uuids w))"
proof -
  from assms obtain ch w1 w2 where
    g: "getChannel b ''publisher'' w = (Return ch, w1)" and
    e: "ensureQueue b ch q w1 = (None, w2)" and
    pb: "publish_body b rt ch q msg p mid w2 = (out, w')"
    by (auto simp: publishToQueue_def publish_failed_def
        split: prod.splits outcome.splits option.splits)
  from getChannel_frame[OF g] ensureQueue_frame[OF e]
  have "uuids w2 = uuids w" by simp
  with publish_body_uuids[OF pb assms(2)] show ?thesis by simp
qed

text \<open>
  Claim C5, as the code has it. The identifier attached to a published message is the
  caller's when it is a non-empty string, and is then attached unchanged without calling
  the generator; when the argument is omitted, or is the empty string, the next identifier
  of the generator is attached, which differs from every identifier handed out before
  whenever the generator never repeats itself.
\<close>

theorem publish_messageId:
  assumes "publishToQueue b rt q msg p mid w = (out, w')"
    and "out = Published \<or> out = AwaitingDrain []"
  shows "\<exists>s. outbox w' = outbox w @ [s] \<and>
     (case mid of
        None \<Rightarrow> messageId (options s) = uuidv4 rt (uuids w) \<and> uuids w' = Suc (uuids w)
          \<and> (inj (uuidv4 rt) \<longrightarrow> (\<forall>k < uuids w. uuidv4 rt k \<noteq> messageId (options s)))
      | Some m \<Rightarrow>
          if m = [] then
            messageId (options s) = uuidv4 rt (uuids w) \<and> uuids w' = Suc (uuids w)
            \<and> (inj (uuidv4 rt) \<longrightarrow> (\<forall>k < uuids w. uuidv4 rt k \<noteq> messageId (options s)))
          else messageId (options s) = m \<and> uuids w' = uuids w)"
proof -
  from publishToQueue_sent[OF assms] obtain s where
    s: "outbox w' = outbox w @ [s]" "messageId (options s) = or_else mid (uuidv4 rt (uuids w))"
    by blast
  have fresh: "inj (uuidv4 rt) \<longrightarrow> (\<forall>k < uuids w. uuidv4 rt k \<noteq> uuidv4 rt (uuids w))"
    by (auto dest: injD)
  from s publishToQueue_uuids[OF assms] fresh show ?thesis
    by (intro exI[of _ s]) (auto simp: or_else_def truthy_def split: option.splits)
qed

lemma inj_text_uuid: "inj (uuidv4 text_runtime)"
proof (rule injI)
  fix x y assume "uuidv4 text_runtime x = uuidv4 text_runtime y"
  then have "length (replicate (Suc x) CHR ''u'') = length (replicate (Suc y) CHR ''u'')"
    by (simp add: text_runtime_def)
  then show "x = y" by simp
qed

theorem publish_messageId_witness:
  "inj (uuidv4 text_runtime)
   \<and> fst (publishToQueue fair_broker text_runtime ''image.processing'' ''{}'' 8 (Some ''m1'')
        new_world) = Published
   \<and> map (messageId \<circ> options)
       (outbox (snd (publishToQueue fair_broker text_runtime ''image.processing'' ''{}'' 8
          (Some ''m1'') new_world))) = [''m1'']
   \<and> map (messageId \<circ> options)
       (outbox (snd (publishToQueue fair_broker text_runtime ''image.processing'' ''{}'' 8
          None new_world))) = [''u'']"
  using publish_messageId[of fair_broker text_runtime "''image.processing''" "''{}''" 8
      "Some ''m1''" new_world Published
      "snd (publishToQueue fair_broker text_runtime ''image.processing'' ''{}'' 8 (Some ''m1'')
        new_world)"]
    inj_text_uuid
  by (simp add: run_defs)

text \<open>
  The empty string is a supplied identifier that is not preserved: \<open>||\<close> takes it for
  absent, and the generated identifier is attached in its place.
\<close>

theorem publish_messageId_counterexample:
  "fst (publishToQueue fair_broker text_runtime ''image.processing'' ''{}'' 8 (Some '''')
        new_world) = Published
   \<and> map (messageId \<circ> options)
       (outbox (snd (publishToQueue fair_broker text_runtime ''image.processing'' ''{}'' 8
          (Some '''') new_world))) = [''u'']
   \<and> ''u'' \<noteq> ''''"
  by (simp add: run_defs)

section \<open>Connection manager: closing one channel\<close>

lemma closeChannel_returns: "fst (closeChannel b name m) = Return ()"
  by (simp add: closeChannel_def split: option.splits)

lemma closeChannel_evicts_when_closed:
  "map_of (channels m) name = Some ch \<Longrightarrow> channel_close b (ch_id ch) = None \<Longrightarrow>
     map_of (channels (snd (closeChannel b name m))) name = None"
  by (simp add: closeChannel_def delete_conv')

lemma close_clears: "channels (snd (close b m)) = []"
  by (simp add: close_def Let_def split: option.splits)

text \<open>
  Claim C9. \<open>closeChannel\<close> never throws (\<open>closeChannel_returns\<close>) and evicts the
  channel when its close resolves. When \<open>channel.close()\<close> rejects, the \<open>delete\<close> that
  follows it inside the \<open>try\<close> is skipped: the call logs the error, returns, and the
  channel is still cached under its name. \<open>close()\<close> on the same state clears the cache
  although the same close rejects.
\<close>

theorem closeChannel_keeps_channel_on_error:
  "map_of (channels publisher_cached) ''publisher'' = Some \<lparr>ch_id = 0, ch_conn = 0, ch_prefetch = 1\<rparr>
   \<and> closeChannel refusing_close_broker ''publisher'' publisher_cached
       = (Return (), publisher_cached\<lparr>errlog := [''Error closing channel (publisher):'']\<rparr>)
   \<and> map_of (channels (snd (closeChannel refusing_close_broker ''publisher'' publisher_cached)))
        ''publisher'' = Some \<lparr>ch_id = 0, ch_conn = 0, ch_prefetch = 1\<rparr>
   \<and> channels (snd (close refusing_close_broker publisher_cached)) = []"
  by (simp add: publisher_cached_def refusing_close_broker_def closeChannel_def close_def
      getChannel_def connect_def open_channel_def new_manager_def fair_broker_def Let_def)

section \<open>Retrying consumer: the retry bound\<close>

lemma on_message_bound:
  "retry_bound s \<Longrightarrow> retryCount e \<le> maxRetries \<Longrightarrow> retry_bound (on_message h base e s)"
  by (auto simp: retry_bound_def on_message_def Let_def split: option.splits)

lemma consumer_step_bound: "retry_bound s \<Longrightarrow> retry_bound (consumer_step h base s)"
proof (cases "main_queue s")
  case (Cons e rest)
  assume b: "retry_bound s"
  with Cons have "retry_bound (s\<lparr>main_queue := rest\<rparr>)" "retryCount e \<le> maxRetries"
    by (auto simp: retry_bound_def)
  then have "retry_bound (on_message h base e (s\<lparr>main_queue := rest\<rparr>))"
    by (rule on_message_bound)
  with Cons show ?thesis by (simp add: consumer_step_def)
next
  case Nil
  assume "retry_bound s"
  with Nil show ?thesis
    by (auto simp: consumer_step_def retry_bound_def split: list.splits)
qed

lemma consumer_run_bound: "retry_bound s \<Longrightarrow> retry_bound (consumer_run n h base s)"
  by (induction n arbitrary: s) (simp_all add: consumer_step_bound)

lemma consumer_run_add:
  "consumer_run (m + n) h base s = consumer_run n h base (consumer_run m h base s)"
  by (induction m arbitrary: s) simp_all

lemma consumer_run_idle:
  "main_queue s = [] \<Longrightarrow> retry_queue s = [] \<Longrightarrow> consumer_run n h base s = s"
  by (induction n) (simp_all add: consumer_step_def)

lemma consumer_run_numeral:
  "consumer_run (numeral k) h base s = consumer_run (pred_numeral k) h base (consumer_step h base s)"
  by (simp add: numeral_eq_Suc)

lemma run_to_dead_letter:
  "consumer_run 11 (always_fails err) base (received (e\<lparr>retryCount := 0\<rparr>) t0) = parked e base err t0"
  by (simp add: consumer_run_numeral consumer_step_def on_message_def always_fails_def received_def
      parked_def maxRetries_def delayMs_def Let_def)


lemma parked_facts:
  "main_queue (parked e base err t0) = []"
  "retry_queue (parked e base err t0) = []"
  "dead_letter_queue (parked e base err t0) =
     [e\<lparr>retryCount := maxRetries, x_original_queue := Some base, x_failure := Some err\<rparr>]"
  "length (filter is_retry (trace (parked e base err t0))) = maxRetries"
  "invocation_times (trace (parked e base err t0)) = map (\<lambda>k. t0 + k * delayMs) [0..<Suc maxRetries]"
  by (simp_all add: parked_def maxRetries_def delayMs_def is_retry_def invocation_times_def upt_rec)

text \<open>
  Claim C3. A freshly received message whose handler always fails is sent to the retry
  queue exactly \<open>maxRetries\<close> times; the handler runs at \<open>t0\<close>, \<open>t0 + delayMs\<close>, ...,
  \<open>t0 + maxRetries * delayMs\<close>; after \<open>2 * maxRetries + 1\<close> moves the main and retry queues
  are empty and the dead-letter queue holds the message with \<open>retryCount = maxRetries\<close>;
  no later move changes anything, so the message never returns to the main queue; and at
  every moment no message in any queue has a \<open>retryCount\<close> above \<open>maxRetries\<close>.
\<close>

theorem retry_then_dead_letter:
  "main_queue (consumer_run (2 * maxRetries + 1) (always_fails err) base
      (received (e\<lparr>retryCount := 0\<rparr>) t0)) = []
   \<and> retry_queue (consumer_run (2 * maxRetries + 1) (always_fails err) base
      (received (e\<lparr>retryCount := 0\<rparr>) t0)) = []
   \<and> dead_letter_queue (consumer_run (2 * maxRetries + 1) (always_fails err) base
      (received (e\<lparr>retryCount := 0\<rparr>) t0))
       = [e\<lparr>retryCount := maxRetries, x_original_queue := Some base, x_failure := Some err\<rparr>]
   \<and> length (filter is_retry (trace (consumer_run (2 * maxRetries + 1) (always_fails err) base
      (received (e\<lparr>retryCount := 0\<rparr>) t0)))) = maxRetries
   \<and> invocation_times (trace (consumer_run (2 * maxRetries + 1) (always_fails err) base
      (received (e\<lparr>retryCount := 0\<rparr>) t0)))
       = map (\<lambda>k. t0 + k * delayMs) [0..<Suc maxRetries]
   \<and> (\<forall>n. consumer_run (2 * maxRetries + 1 + n) (always_fails err) base
          (received (e\<lparr>retryCount := 0\<rparr>) t0)
        = consumer_run (2 * maxRetries + 1) (always_fails err) base
          (received (e\<lparr>retryCount := 0\<rparr>) t0))
   \<and> (\<forall>n. retry_bound (consumer_run n (always_fails err) base
          (received (e\<lparr>retryCount := 0\<rparr>) t0)))"
proof -
  let ?s0 = "received (e\<lparr>retryCount := 0\<rparr>) t0"
  have moves: "2 * maxRetries + 1 = 11" by (simp add: maxRetries_def)
  have fin: "consumer_run (2 * maxRetries + 1) (always_fails err) base ?s0 = parked e base err t0"
    unfolding moves by (rule run_to_dead_letter)
  have stable: "\<forall>n. consumer_run (2 * maxRetries + 1 + n) (always_fails err) base ?s0
                  = consumer_run (2 * maxRetries + 1) (always_fails err) base ?s0"
  proof
    fix n
    have "consumer_run (2 * maxRetries + 1 + n) (always_fails err) base ?s0
            = consumer_run n (always_fails err) base (parked e base err t0)"
      using consumer_run_add[of "2 * maxRetries + 1" n "always_fails err" base ?s0]
      by (simp only: fin)
    then show "consumer_run (2 * maxRetries + 1 + n) (always_fails err) base ?s0
                  = consumer_run (2 * maxRetries + 1) (always_fails err) base ?s0"
      by (simp only: fin) (simp add: consumer_run_idle parked_facts)
  qed
  have "retry_bound ?s0" by (simp add: retry_bound_def received_def)
  then have bound: "\<forall>n. retry_bound (consumer_run n (always_fails err) base ?s0)"
    by (simp add: consumer_run_bound)
  from stable bound show ?thesis
    by (simp only: fin parked_facts) simp
qed

theorem retry_then_dead_letter_witness:
  "dead_letter_queue (consumer_run 11 (always_fails ''handler threw'') ''image.processing''
      (received order_o1 0))
     = [order_o1\<lparr>retryCount := 5, x_original_queue := Some ''image.processing'',
          x_failure := Some ''handler threw''\<rparr>]
   \<and> retry_bound (consumer_run 3 (always_fails ''handler threw'') ''image.processing''
      (received order_o1 0))
   \<and> map retryCount (map snd (retry_queue (consumer_run 3 (always_fails ''handler threw'')
        ''image.processing'' (received order_o1 0)))) = [2]"
  using retry_then_dead_letter[of "''handler threw''" "''image.processing''" order_o1 0]
  by (simp add: consumer_run_numeral consumer_step_def on_message_def always_fails_def
      received_def order_o1_def maxRetries_def delayMs_def Let_def retry_bound_def)

section \<open>Publisher: waiting for the drain event\<close>

lemma full_sends_0: "full_sends b base 0 = 0"
  by (simp add: full_sends_def)

lemma full_sends_Suc:
  "full_sends b base (Suc n) =
     (if sendToQueue b base = Inr False then 1 else 0) + full_sends b (Suc base) n"
proof -
  have "[base..<base + Suc n] = base # [Suc base..<Suc base + n]"
    by (simp add: upt_conv_Cons)
  then show ?thesis by (simp only: full_sends_def) simp
qed

lemma loop_step:
  assumes "JSON_stringify rt m = Some buf" and "sendToQueue b (length (outbox w)) = Inr sent"
  shows "\<exists>w2. length (outbox w2) = Suc (length (outbox w))
     \<and> publishBatch_loop b rt ch q p ts (m # rest) w =
         (if sent then publishBatch_loop b rt ch q p ts rest w2 else (AwaitingDrain rest, w2))"
  using assms
  by (intro exI[of _ "snd (send_message b ch q buf p (uuidv4 rt (uuids w)) ts
        (w\<lparr>uuids := Suc (uuids w)\<rparr>))"])
     (simp add: send_message_def Let_def)

lemma loop_fails:
  assumes "JSON_stringify rt m = None \<or> isl (sendToQueue b (length (outbox w)))"
  shows "\<exists>e w'. publishBatch_loop b rt ch q p ts (m # rest) w = (Failed e, w')"
proof (cases "JSON_stringify rt m")
  case None
  then show ?thesis by (simp add: batch_failed_def)
next
  case (Some buf)
  with assms obtain e where "sendToQueue b (length (outbox w)) = Inl e"
    by (cases "sendToQueue b (length (outbox w))") auto
  with Some show ?thesis by (simp add: send_message_def batch_failed_def Let_def)
qed

lemma loop_cases:
  obtains (fails) e w' where "publishBatch_loop b rt ch q p ts (m # rest) w = (Failed e, w')"
  | (sent) sent w2 where "sendToQueue b (length (outbox w)) = Inr sent"
      "length (outbox w2) = Suc (length (outbox w))"
      "publishBatch_loop b rt ch q p ts (m # rest) w =
         (if sent then publishBatch_loop b rt ch q p ts rest w2 else (AwaitingDrain rest, w2))"
proof (cases "JSON_stringify rt m = None \<or> isl (sendToQueue b (length (outbox w)))")
  case True
  from loop_fails[OF this] show ?thesis using fails by blast
next
  case False
  then obtain buf s where "JSON_stringify rt m = Some buf" "sendToQueue b (length (outbox w)) = Inr s"
    by (cases "sendToQueue b (length (outbox w))") auto
  from loop_step[OF this] this(2) show ?thesis using sent by blast
qed

lemma loop_published:
  "publishBatch_loop b rt ch q p ts msgs w = (Published, w') \<Longrightarrow>
     (\<forall>i < length msgs. sendToQueue b (length (outbox w) + i) = Inr True)
     \<and> length (outbox w') = length (outbox w) + length msgs"
proof (induction msgs arbitrary: w)
  case Nil
  then show ?case by simp
next
  case (Cons m rest)
  show ?case
  proof (cases rule: loop_cases[of b rt ch q p ts m rest w])
    case (fails e w'')
    with Cons.prems show ?thesis by simp
  next
    case (sent s w2)
    with Cons.prems have s: "s" and r: "publishBatch_loop b rt ch q p ts rest w2 = (Published, w')"
      by (auto split: if_splits)
    from Cons.IH[OF r] sent(2)
    have ih: "\<forall>i < length rest. sendToQueue b (Suc (length (outbox w)) + i) = Inr True"
      "length (outbox w') = Suc (length (outbox w)) + length rest" by simp_all
    have "\<forall>i < length (m # rest). sendToQueue b (length (outbox w) + i) = Inr True"
    proof (intro allI impI)
      fix i assume "i < length (m # rest)"
      then show "sendToQueue b (length (outbox w) + i) = Inr True"
        using ih(1) sent(1) s by (cases i) auto
    qed
    with ih(2) show ?thesis by simp
  qed
qed

lemma loop_suspended:
  "publishBatch_loop b rt ch q p ts msgs w = (AwaitingDrain rest, w') \<Longrightarrow>
     \<exists>sent. msgs = sent @ rest \<and> sent \<noteq> []
       \<and> length (outbox w') = length (outbox w) + length sent
       \<and> sendToQueue b (length (outbox w) + length sent - 1) = Inr False
       \<and> (\<forall>i < length sent - 1. sendToQueue b (length (outbox w) + i) = Inr True)"
proof (induction msgs arbitrary: w)
  case Nil
  then show ?case by simp
next
  case (Cons m ms)
  show ?case
  proof (cases rule: loop_cases[of b rt ch q p ts m ms w])
    case (fails e w'')
    with Cons.prems show ?thesis by simp
  next
    case (sent s w2)
    show ?thesis
    proof (cases s)
      case False
      with sent Cons.prems have "rest = ms" "w' = w2" by simp_all
      with sent False show ?thesis by (intro exI[of _ "[m]"]) simp
    next
      case True
      with sent Cons.prems
      have r: "publishBatch_loop b rt ch q p ts ms w2 = (AwaitingDrain rest, w')" by simp
      from Cons.IH[OF r] sent(2) obtain pre where d:
        "ms = pre @ rest" "pre \<noteq> []"
        "length (outbox w') = Suc (length (outbox w)) + length pre"
        "sendToQueue b (Suc (length (outbox w)) + length pre - 1) = Inr False"
        "\<forall>i < length pre - 1. sendToQueue b (Suc (length (outbox w)) + i) = Inr True"
        by auto
      have "\<forall>i < length (m # pre) - 1. sendToQueue b (length (outbox w) + i) = Inr True"
      proof (intro allI impI)
        fix i assume "i < length (m # pre) - 1"
        then show "sendToQueue b (length (outbox w) + i) = Inr True"
          using d(2,5) sent(1) True by (cases i) auto
      qed
      with d show ?thesis by (intro exI[of _ "m # pre"]) simp
    qed
  qed
qed

lemma drains_published_iff:
  assumes "\<forall>m \<in> set msgs. JSON_stringify rt m \<noteq> None"
    and "\<forall>i < length msgs. \<not> isl (sendToQueue b (length (outbox w) + i))"
  shows "fst (publishBatch_drains d b rt ch q p ts msgs w) = Published
           \<longleftrightarrow> full_sends b (length (outbox w)) (length msgs) \<le> d"
  using assms
proof (induction msgs arbitrary: w d)
  case Nil
  then show ?case by (cases d) (simp_all add: full_sends_0)
next
  case (Cons m rest)
  from Cons.prems obtain buf where buf: "JSON_stringify rt m = Some buf" by auto
  from Cons.prems(2) have "\<not> isl (sendToQueue b (length (outbox w)))" by force
  then obtain s where s: "sendToQueue b (length (outbox w)) = Inr s"
    by (cases "sendToQueue b (length (outbox w))") auto
  from loop_step[OF buf s, of ch q p ts rest] obtain w2 where w2:
    "length (outbox w2) = Suc (length (outbox w))"
    "publishBatch_loop b rt ch q p ts (m # rest) w =
         (if s then publishBatch_loop b rt ch q p ts rest w2 else (AwaitingDrain rest, w2))"
    by blast
  have p1: "\<forall>m \<in> set rest. JSON_stringify rt m \<noteq> None" using Cons.prems(1) by simp
  have p2: "\<forall>i < length rest. \<not> isl (sendToQueue b (length (outbox w2) + i))"
  proof (intro allI impI)
    fix i assume "i < length rest"
    then have "Suc i < length (m # rest)" by simp
    with Cons.prems(2) have "\<not> isl (sendToQueue b (length (outbox w) + Suc i))" by blast
    then show "\<not> isl (sendToQueue b (length (outbox w2) + i))" by (simp add: w2(1))
  qed
  note ih = Cons.IH[OF p1 p2]
  show ?case
  proof (cases s)
    case True
    have same: "publishBatch_drains d b rt ch q p ts (m # rest) w
                  = publishBatch_drains d b rt ch q p ts rest w2"
      using w2(2) True by (cases d) simp_all
    from True s have "full_sends b (length (outbox w)) (length (m # rest))
                        = full_sends b (length (outbox w2)) (length rest)"
      by (simp add: full_sends_Suc w2(1))
    with same ih[of d] show ?thesis by simp
  next
    case False
    with s have f: "full_sends b (length (outbox w)) (length (m # rest))
                        = Suc (full_sends b (length (outbox w2)) (length rest))"
      by (simp add: full_sends_Suc w2(1))
    show ?thesis
    proof (cases d)
      case 0
      with w2(2) False f show ?thesis by simp
    next
      case (Suc d')
      with w2(2) False have "publishBatch_drains d b rt ch q p ts (m # rest) w
                  = publishBatch_drains d' b rt ch q p ts rest w2" by simp
      with ih[of d'] f Suc show ?thesis by simp
    qed
  qed
qed

lemma publishToQueue_body:
  fixes w :: "'a world_scheme"
  assumes "fst (publishToQueue b rt q msg p mid w) = out"
    and "out = Published \<or> out = AwaitingDrain rest"
  shows "\<exists>ch (w2 :: 'a world_scheme).
           outbox w2 = outbox w \<and> fst (publish_body b rt ch q msg p mid w2) = out"
proof -
  obtain w' where eq: "publishToQueue b rt q msg p mid w = (out, w')"
    using assms(1) by (cases "publishToQueue b rt q msg p mid w") auto
  with assms(2) obtain ch w1 w2 where
    g: "getChannel b ''publisher'' w = (Return ch, w1)" and
    e: "ensureQueue b ch q w1 = (None, w2)" and
    pb: "publish_body b rt ch q msg p mid w2 = (out, w')"
    by (auto simp: publishToQueue_def publish_failed_def
        split: prod.splits outcome.splits option.splits)
  from getChannel_frame[OF g] ensureQueue_frame[OF e] have "outbox w2 = outbox w" by simp
  with pb show ?thesis by (intro exI[of _ ch] exI[of _ w2]) simp
qed

lemma publishToQueue_returned:
  fixes w :: "'a world_scheme"
  assumes "fst (publishToQueue b rt q msg p mid w) = Published"
  shows "sendToQueue b (length (outbox w)) = Inr True"
proof -
  from publishToQueue_body[OF assms] obtain ch and w2 :: "'a world_scheme" where
    "outbox w2 = outbox w" "fst (publish_body b rt ch q msg p mid w2) = Published" by blast
  then show ?thesis
    by (auto simp: publish_body_fst split: option.splits sum.splits if_splits)
qed

lemma publishToQueue_suspended:
  fixes w :: "'a world_scheme"
  assumes "fst (publishToQueue b rt q msg p mid w) = AwaitingDrain rest"
  shows "rest = [] \<and> sendToQueue b (length (outbox w)) = Inr False"
proof -
  from publishToQueue_body[OF assms] obtain ch and w2 :: "'a world_scheme" where
    "outbox w2 = outbox w" "fst (publish_body b rt ch q msg p mid w2) = AwaitingDrain rest"
    by blast
  then show ?thesis
    by (auto simp: publish_body_fst split: option.splits sum.splits if_splits)
qed

lemma publishBatchToQueue_loop:
  fixes w :: "'a world_scheme"
  assumes "publishBatchToQueue b rt q msgs p w = (out, w')"
    and "out = Published \<or> out = AwaitingDrain rest"
  shows "\<exists>ch (w2 :: 'a world_scheme). outbox w2 = outbox w
           \<and> publishBatch_loop b rt ch q p (Date_now rt) msgs w2 = (out, w')"
proof -
  from assms obtain ch w1 w2 where
    g: "getChannel b ''publisher'' w = (Return ch, w1)" and
    e: "ensureQueue b ch q w1 = (None, w2)" and
    pb: "publishBatch_loop b rt ch q p (Date_now rt) msgs w2 = (out, w')"
    by (auto simp: publishBatchToQueue_def batch_failed_def
        split: prod.splits outcome.splits option.splits)
  from getChannel_frame[OF g] ensureQueue_frame[OF e] have "outbox w2 = outbox w" by simp
  with pb show ?thesis by (intro exI[of _ ch] exI[of _ w2]) simp
qed

text \<open>
  Claim C8. A publish returns without waiting only when its send reported room; when the
  send reports a full buffer the call is suspended on the \<open>drain\<close> event, having sent
  the message once, and the event lets it return without sending anything again. In a
  batch the loop stops right after the first message whose send reports a full buffer,
  with the rest of the batch unsent, and re-enters there on \<open>drain\<close>; so a batch that
  meets no error returns exactly when it has received as many drain events as it had
  sends reporting a full buffer.
\<close>

theorem publish_waits_for_drain:
  "(fst (publishToQueue b rt q msg p mid w) = Published
      \<longrightarrow> sendToQueue b (length (outbox w)) = Inr True)
   \<and> (fst (publishToQueue b rt q msg p mid w) = AwaitingDrain rest
      \<longrightarrow> rest = [] \<and> sendToQueue b (length (outbox w)) = Inr False)
   \<and> publishToQueue_drained w1 = (Published, w1)
   \<and> (publishBatchToQueue b rt q msgs p w = (Published, w2)
      \<longrightarrow> (\<forall>i < length msgs. sendToQueue b (length (outbox w) + i) = Inr True))
   \<and> (publishBatchToQueue b rt q msgs p w = (AwaitingDrain rest, w2)
      \<longrightarrow> (\<exists>sent. msgs = sent @ rest \<and> sent \<noteq> []
            \<and> length (outbox w2) = length (outbox w) + length sent
            \<and> sendToQueue b (length (outbox w) + length sent - 1) = Inr False
            \<and> (\<forall>i < length sent - 1. sendToQueue b (length (outbox w) + i) = Inr True)))
   \<and> (publishBatch_loop b rt ch q p ts msgs w = (Published, w3)
      \<longrightarrow> (\<forall>i < length msgs. sendToQueue b (length (outbox w) + i) = Inr True))
   \<and> (publishBatch_loop b rt ch q p ts msgs w = (AwaitingDrain rest, w3)
      \<longrightarrow> (\<exists>sent. msgs = sent @ rest \<and> sent \<noteq> []
            \<and> length (outbox w3) = length (outbox w) + length sent
            \<and> sendToQueue b (length (outbox w) + length sent - 1) = Inr False
            \<and> (\<forall>i < length sent - 1. sendToQueue b (length (outbox w) + i) = Inr True)))
   \<and> ((\<forall>m \<in> set msgs. JSON_stringify rt m \<noteq> None)
       \<and> (\<forall>i < length msgs. \<not> isl (sendToQueue b (length (outbox w) + i)))
      \<longrightarrow> (fst (publishBatch_drains d b rt ch q p ts msgs w) = Published
             \<longleftrightarrow> full_sends b (length (outbox w)) (length msgs) \<le> d))"
proof (intro conjI impI)
  assume "fst (publishToQueue b rt q msg p mid w) = Published"
  then show "sendToQueue b (length (outbox w)) = Inr True" by (rule publishToQueue_returned)
next
  assume a: "fst (publishToQueue b rt q msg p mid w) = AwaitingDrain rest"
  from publishToQueue_suspended[OF a] show "rest = []" by simp
  from publishToQueue_suspended[OF a] show "sendToQueue b (length (outbox w)) = Inr False" by simp
next
  show "publishToQueue_drained w1 = (Published, w1)" by (simp add: publishToQueue_drained_def)
next
  assume a: "publishBatchToQueue b rt q msgs p w = (Published, w2)"
  from publishBatchToQueue_loop[OF a] obtain c v where
    "outbox v = outbox w" "publishBatch_loop b rt c q p (Date_now rt) msgs v = (Published, w2)"
    by blast
  with loop_published[of b rt c q p "Date_now rt" msgs v w2]
  show "\<forall>i < length msgs. sendToQueue b (length (outbox w) + i) = Inr True" by simp
next
  assume a: "publishBatchToQueue b rt q msgs p w = (AwaitingDrain rest, w2)"
  from publishBatchToQueue_loop[OF a] obtain c v where
    "outbox v = outbox w"
    "publishBatch_loop b rt c q p (Date_now rt) msgs v = (AwaitingDrain rest, w2)"
    by blast
  with loop_suspended[of b rt c q p "Date_now rt" msgs v rest w2]
  show "\<exists>sent. msgs = sent @ rest \<and> sent \<noteq> []
            \<and> length (outbox w2) = length (outbox w) + length sent
            \<and> sendToQueue b (length (outbox w) + length sent - 1) = Inr False
            \<and> (\<forall>i < length sent - 1. sendToQueue b (length (outbox w) + i) = Inr True)"
    by simp
next
  assume "publishBatch_loop b rt ch q p ts msgs w = (Published, w3)"
  from loop_published[OF this]
  show "\<forall>i < length msgs. sendToQueue b (length (outbox w) + i) = Inr True" by simp
next
  assume "publishBatch_loop b rt ch q p ts msgs w = (AwaitingDrain rest, w3)"
  from loop_suspended[OF this]
  show "\<exists>sent. msgs = sent @ rest \<and> sent \<noteq> []
            \<and> length (outbox w3) = length (outbox w) + length sent
            \<and> sendToQueue b (length (outbox w) + length sent - 1) = Inr False
            \<and> (\<forall>i < length sent - 1. sendToQueue b (length (outbox w) + i) = Inr True)" .
next
  assume "(\<forall>m \<in> set msgs. JSON_stringify rt m \<noteq> None)
       \<and> (\<forall>i < length msgs. \<not> isl (sendToQueue b (length (outbox w) + i)))"
  then show "fst (publishBatch_drains d b rt ch q p ts msgs w) = Published
             \<longleftrightarrow> full_sends b (length (outbox w)) (length msgs) \<le> d"
    using drains_published_iff[of msgs rt b w d ch q p ts] by blast
qed

theorem publish_waits_for_drain_witness:
  "JSON_stringify text_runtime ''a'' \<noteq> None \<and> JSON_stringify text_runtime ''b'' \<noteq> None
   \<and> JSON_stringify text_runtime ''c'' \<noteq> None
   \<and> sendToQueue congested_broker (length (outbox new_world)) = Inr False
   \<and> sendToQueue congested_broker (length (outbox new_world) + 1) = Inr True
   \<and> sendToQueue congested_broker (length (outbox new_world) + 2) = Inr False
   \<and> full_sends congested_broker (length (outbox new_world)) (length [''a'', ''b'', ''c'']) = 2
   \<and> fst (publishBatch_drains 0 congested_broker text_runtime publisher_channel
        ''image.processing'' 5 0 [''a'', ''b'', ''c''] new_world) = AwaitingDrain [''b'', ''c'']
   \<and> fst (publishBatch_drains 1 congested_broker text_runtime publisher_channel
        ''image.processing'' 5 0 [''a'', ''b'', ''c''] new_world) = AwaitingDrain []
   \<and> fst (publishBatch_drains 2 congested_broker text_runtime publisher_channel
        ''image.processing'' 5 0 [''a'', ''b'', ''c''] new_world) = Published
   \<and> fst (publishToQueue congested_broker text_runtime ''image.processing'' ''a'' 5 None
        new_world) = AwaitingDrain []"
  using publish_waits_for_drain[of congested_broker text_runtime "''image.processing''" "''a''" 5
      None new_world "[]" _ "[''a'', ''b'', ''c'']" _ publisher_channel 0 _ 2]
  by (simp add: run_defs congested_broker_def publisher_channel_def full_sends_def upt_rec
      numeral_2_eq_2)

section \<open>Connection manager: one attempt at a time\<close>

lemma filter_update_count:
  "i < length xs \<Longrightarrow>
     length (filter P (xs[i := x])) + (if P (xs ! i) then 1 else 0)
       = length (filter P xs) + (if P x then 1 else 0)"
proof (induction xs arbitrary: i)
  case Nil
  then show ?case by simp
next
  case (Cons a xs)
  show ?case
  proof (cases i)
    case 0
    then show ?thesis by simp
  next
    case (Suc j)
    with Cons.prems have "j < length xs" by simp
    from Cons.IH[OF this] Suc show ?thesis by simp
  qed
qed

lemma entry_one_attempt:
  assumes "one_attempt (pcs, m)" and "connect_step b Entry m = (pc, m')"
  shows "one_attempt (pcs @ [pc], m')"
  using assms
  by (auto simp: one_attempt_def awaiting_def split: option.splits if_splits)

lemma entry_timers_one_attempt:
  assumes "one_attempt (pcs, m)" and "connect_step b Entry (m\<lparr>timers := ts\<rparr>) = (pc, m')"
  shows "one_attempt (pcs @ [pc], m')"
proof -
  from assms(1) have "one_attempt (pcs, m\<lparr>timers := ts\<rparr>)" by (simp add: one_attempt_def)
  then show ?thesis using assms(2) by (rule entry_one_attempt)
qed

lemma resume_one_attempt:
  assumes inv: "one_attempt (pcs, m)" and i: "i < length pcs"
    and st: "connect_step b (pcs ! i) m = (pc, m')"
  shows "one_attempt (pcs[i := pc], m')"
proof -
  note cnt = filter_update_count[OF i, of awaiting pc]
  show ?thesis
  proof (cases "pcs ! i")
    case Entry
    with st inv cnt show ?thesis
      by (auto simp: one_attempt_def awaiting_def split: option.splits if_splits)
  next
    case Polling
    with st inv cnt show ?thesis
      by (auto simp: one_attempt_def awaiting_def split: option.splits if_splits)
  next
    case (Awaiting n)
    with st inv cnt show ?thesis
      by (auto simp: one_attempt_def awaiting_def split: option.splits if_splits)
  next
    case (Returned r)
    with st inv cnt show ?thesis
      by (auto simp: one_attempt_def awaiting_def split: option.splits if_splits)
  next
    case (Threw e)
    with st inv cnt show ?thesis
      by (auto simp: one_attempt_def awaiting_def split: option.splits if_splits)
  qed
qed

lemma sys_step_one_attempt: "one_attempt s \<Longrightarrow> one_attempt (sys_step e s)"
proof -
  assume inv: "one_attempt s"
  obtain b ev where e: "e = (b, ev)" by (cases e)
  obtain pcs m where s: "s = (pcs, m)" by (cases s)
  show ?thesis
  proof (cases ev)
    case Call
    with e s inv show ?thesis
      by (auto split: prod.splits intro: entry_one_attempt)
  next
    case (Resume i)
    with e s inv show ?thesis
      by (auto split: prod.splits intro: resume_one_attempt)
  next
    case Closed
    with e s inv show ?thesis
      by (simp add: one_attempt_def on_connection_close_def)
  next
    case Reconnect
    with e s inv show ?thesis
      by (auto split: prod.splits list.splits intro: entry_timers_one_attempt)
  qed
qed

lemma sys_run_one_attempt: "one_attempt s \<Longrightarrow> one_attempt (sys_run es s)"
  by (induction es arbitrary: s) (simp_all add: sys_step_one_attempt)

lemma one_attempt_start: "one_attempt ([], new_manager)"
  by (simp add: one_attempt_def new_manager_def)

text \<open>
  Claim C6. A call of \<open>connect()\<close> that finds a connection returns it at once and changes
  nothing, so no attempt is started. A call that finds no connection while an attempt is
  in flight starts none either: it polls, keeps polling as long as \<open>isConnecting\<close> holds,
  and returns the connection field once it no longer does. However calls, resumptions,
  closures and reconnect timers interleave from the start of the process, at most one
  attempt is in flight at any moment.
\<close>

theorem connect_idempotent:
  "(connection m = Some c \<longrightarrow> connect_step b Entry m = (Returned (Some c), m))
   \<and> (connection m = None \<and> isConnecting m \<longrightarrow> connect_step b Entry m = (Polling, m))
   \<and> (isConnecting m \<longrightarrow> connect_step b Polling m = (Polling, m))
   \<and> (\<not> isConnecting m \<longrightarrow> connect_step b Polling m = (Returned (connection m), m))
   \<and> (sys_run es ([], new_manager) = (pcs, m')
        \<longrightarrow> length (filter awaiting pcs) = (if isConnecting m' then 1 else 0)
          \<and> (isConnecting m' \<longrightarrow> connection m' = None))"
proof -
  have "sys_run es ([], new_manager) = (pcs, m')
        \<longrightarrow> length (filter awaiting pcs) = (if isConnecting m' then 1 else 0)
          \<and> (isConnecting m' \<longrightarrow> connection m' = None)"
    using sys_run_one_attempt[OF one_attempt_start, of es]
    by (auto simp: one_attempt_def)
  then show ?thesis by simp
qed

theorem connect_idempotent_witness:
  "connection live_manager = Some 0
   \<and> connect_step fair_broker Entry live_manager = (Returned (Some 0), live_manager)
   \<and> connection busy_manager = None \<and> isConnecting busy_manager
   \<and> connect_step fair_broker Entry busy_manager = (Polling, busy_manager)
   \<and> connect_step fair_broker Polling busy_manager = (Polling, busy_manager)
   \<and> sys_run [(fair_broker, Call), (fair_broker, Call), (fair_broker, Call)] ([], new_manager)
     = ([Awaiting 0, Polling, Polling], busy_manager)
   \<and> sys_run [(fair_broker, Call), (fair_broker, Call), (fair_broker, Resume 1),
              (fair_broker, Resume 0), (fair_broker, Resume 1), (fair_broker, Call)]
        ([], new_manager)
     = ([Returned (Some 0), Returned (Some 0), Returned (Some 0)], live_manager)"
  using connect_idempotent[of live_manager 0 fair_broker
      "[(fair_broker, Call), (fair_broker, Call), (fair_broker, Call)]"
      "[Awaiting 0, Polling, Polling]" busy_manager]
    connect_idempotent[of busy_manager 0 fair_broker]
  by (simp add: new_manager_def fair_broker_def live_manager_def busy_manager_def)

section \<open>Webhook deliveries and the ledger\<close>














section \<open>Connection manager: a channel that outlives its connection\<close>

lemma getChannel_uninterrupted_agrees:
  "getChannel b name m =
     (settled (fst (getChannel_uninterrupted b name m)), snd (getChannel_uninterrupted b name m))"
  by (auto simp: getChannel_def getChannel_uninterrupted_def getChannel_entry_def connect_def
      open_channel_def after_connect_def begin_create_def settled_def Let_def
      split: option.splits prod.splits connect_pc.splits if_splits)

lemma on_connection_close_effect:
  "channels (on_connection_close m) = []"
  "connection (on_connection_close m) = None"
  "timers (on_connection_close m) = timers m @ [10000]"
  by (simp_all add: on_connection_close_def reconnectTimeInSeconds_def)

text \<open>The definitions a concrete interleaving unfolds.\<close>

lemmas mgr_defs =
  up_to_prefetch_def closed_then_reconnected_def getChannel_entry_def after_connect_def
  begin_create_def continue_task_def on_connection_close_def reconnectTimeInSeconds_def
  new_manager_def fair_broker_def

text \<open>
  Claim C7. The close handler does clear the cache and the connection handle and
  schedules the reconnect 10000 ms later (\<open>on_connection_close_effect\<close>). But a
  \<open>getChannel\<close> that is waiting for its \<open>prefetch\<close> when the connection closes goes
  on afterwards and caches the channel it opened on the closed connection; after the
  reconnect, with connection 1 in place, \<open>getChannel('publisher')\<close> returns that channel
  of connection 0 from the cache.
\<close>

theorem stale_channel_returned_after_close:
  "mgr_run up_to_prefetch ([], new_manager)
     = ([GetChannel_call ''publisher'' (GPrefetching \<lparr>ch_id = 0, ch_conn = 0, ch_prefetch = 1\<rparr>)],
        \<lparr>connection = Some 0, channels = [], isConnecting = False, timers = [],
         attempts = 1, opened = 1, errlog = []\<rparr>)
   \<and> snd (mgr_step (fair_broker, Close_signalled) (mgr_run up_to_prefetch ([], new_manager)))
     = \<lparr>connection = None, channels = [], isConnecting = False, timers = [10000],
        attempts = 1, opened = 1, errlog = []\<rparr>
   \<and> mgr_run (up_to_prefetch @ closed_then_reconnected) ([], new_manager)
     = ([GetChannel_call ''publisher'' (GReturned \<lparr>ch_id = 0, ch_conn = 0, ch_prefetch = 1\<rparr>),
         Reconnect_call (Returned (Some 1))],
        \<lparr>connection = Some 1,
         channels = [(''publisher'', \<lparr>ch_id = 0, ch_conn = 0, ch_prefetch = 1\<rparr>)],
         isConnecting = False, timers = [], attempts = 2, opened = 1, errlog = []\<rparr>)
   \<and> getChannel fair_broker ''publisher''
        (snd (mgr_run (up_to_prefetch @ closed_then_reconnected) ([], new_manager)))
     = (Return \<lparr>ch_id = 0, ch_conn = 0, ch_prefetch = 1\<rparr>,
        snd (mgr_run (up_to_prefetch @ closed_then_reconnected) ([], new_manager)))
   \<and> fst (getChannel_entry fair_broker ''publisher''
        (snd (mgr_run (up_to_prefetch @ closed_then_reconnected) ([], new_manager))))
     = GReturned \<lparr>ch_id = 0, ch_conn = 0, ch_prefetch = 1\<rparr>"
  by (simp add: mgr_defs getChannel_def)

end
